theory Spec2Isabelle
  imports Complex_Main "HOL-Library.AList" "HOL-Library.Log_Nat"
begin

section \<open>JavaScript values\<close>

text \<open>
  A number of the model is a rational, \<open>NaN\<close> or an infinity. The doubles of
  JavaScript are the rationals \<open>roundDouble\<close> leaves as they are, with \<open>NaN\<close>
  and the two infinities; the integers up to \<open>2^53\<close> and \<open>Number.MAX_VALUE\<close> are
  among them. Zero stands for both zeros, which no operation of the service tells
  apart.
\<close>

datatype number = Finite rat | NaN | PosInfinity | NegInfinity

text \<open>What \<open>n ? a : b\<close> tests on a number: zero and \<open>NaN\<close> are falsy.\<close>

fun truthyNumber :: "number \<Rightarrow> bool" where
  "truthyNumber (Finite q) = (q \<noteq> 0)"
| "truthyNumber NaN = False"
| "truthyNumber PosInfinity = True"
| "truthyNumber NegInfinity = True"

text \<open>\<open>n > Date.now()\<close>: every comparison with \<open>NaN\<close> is false.\<close>

fun greaterThan :: "number \<Rightarrow> int \<Rightarrow> bool" where
  "greaterThan (Finite e) now = (of_int now < e)"
| "greaterThan NaN now = False"
| "greaterThan PosInfinity now = True"
| "greaterThan NegInfinity now = False"

text \<open>The exponent of a positive rational: \<open>2^e \<le> a < 2^(e+1)\<close>.\<close>

definition floorLog2 :: "rat \<Rightarrow> int" where
  "floorLog2 a =
     (let d = bitlen (fst (quotient_of a)) - bitlen (snd (quotient_of a))
      in if 2 powi d \<le> a then d else d - 1)"

text \<open>
  The double nearest to a rational, which is what a product or a sum of doubles is
  (IEEE 754, binary64, round to nearest, ties to even): the result keeps 53 bits from
  the leading one, or the bits down to \<open>2^-1074\<close> for a number below \<open>2^-1022\<close>;
  a result of \<open>2^1024\<close> or more is an infinity.
\<close>

definition roundDouble :: "rat \<Rightarrow> number" where
  "roundDouble x =
     (if x = 0 then Finite 0
      else (let a = \<bar>x\<bar>;
                e = max (floorLog2 a) (- 1022);
                u = 2 powi (e - 52);
                n = \<lfloor>a / u\<rfloor>;
                r = a / u - of_int n;
                n' = (if 1 / 2 < r \<or> (r = 1 / 2 \<and> odd n) then n + 1 else n);
                m = of_int n' * u
            in if 2 ^ 1024 \<le> m then (if 0 < x then PosInfinity else NegInfinity)
               else Finite (sgn x * m)))"

text \<open>\<open>n * 1000\<close> and \<open>Date.now() + n\<close>.\<close>

fun times1000 :: "number \<Rightarrow> number" where
  "times1000 (Finite k) = roundDouble (k * 1000)"
| "times1000 NaN = NaN"
| "times1000 PosInfinity = PosInfinity"
| "times1000 NegInfinity = NegInfinity"

fun plusNow :: "int \<Rightarrow> number \<Rightarrow> number" where
  "plusNow now (Finite k) = roundDouble (of_int now + k)"
| "plusNow now NaN = NaN"
| "plusNow now PosInfinity = PosInfinity"
| "plusNow now NegInfinity = NegInfinity"

text \<open>
  The cache stores values of TypeScript's type \<open>any\<close>. The values of the model are
  the data values of JavaScript: \<open>undefined\<close>, \<open>null\<close>, booleans, numbers,
  strings, arrays and objects, and \<open>JNative\<close> for what only the runtime holds: a
  built-in function, or the object \<open>Object.prototype\<close>. An object is the list of
  its own properties in their enumeration order; it inherits the members of
  \<open>Object.prototype\<close>, as an object literal and an object read from JSON do.
\<close>

datatype jsval =
    JUndefined
  | JNull
  | JBool bool
  | JNum number
  | JStr string
  | JArr "jsval list"
  | JObj "(string \<times> jsval) list"
  | JNative

text \<open>What \<open>if (v)\<close>, \<open>!!v\<close> and \<open>v || w\<close> test.\<close>

fun truthy :: "jsval \<Rightarrow> bool" where
  "truthy JUndefined = False"
| "truthy JNull = False"
| "truthy (JBool b) = b"
| "truthy (JNum n) = truthyNumber n"
| "truthy (JStr s) = (s \<noteq> [])"
| "truthy (JArr xs) = True"
| "truthy (JObj kvs) = True"
| "truthy JNative = True"

text \<open>The truth value of an optional number (\<open>options.expires ? ... : ...\<close>) and of
  an optional string (\<open>options.tag\<close>): a missing property is \<open>undefined\<close>.\<close>

fun truthyNum :: "number option \<Rightarrow> bool" where
  "truthyNum None = False"
| "truthyNum (Some n) = truthyNumber n"

fun truthyStr :: "string option \<Rightarrow> bool" where
  "truthyStr None = False"
| "truthyStr (Some s) = (s \<noteq> [])"

text \<open>\<open>v || {}\<close>\<close>

definition orEmpty :: "jsval \<Rightarrow> jsval" where
  "orEmpty v = (if truthy v then v else JObj [])"

text \<open>
  What can go wrong. \<open>TypeError\<close>: the source calls a method the value does not have
  (\<open>forEach\<close>, \<open>push\<close>, \<open>indexOf\<close>, \<open>splice\<close>, \<open>replace\<close>).
  \<open>Unsupported\<close>: the source goes on with a part of JavaScript outside this model (the
  properties of a truthy value that is not an object read as the tag table, the
  conversion to a string of a listed key that is not a string).
  \<open>OutOfFuel\<close>: the bound on the depth of the calls was reached.
\<close>

datatype error = TypeError | Unsupported | OutOfFuel

definition asObject :: "jsval \<Rightarrow> error + (string \<times> jsval) list" where
  "asObject v = (case v of JObj kvs \<Rightarrow> Inr kvs | _ \<Rightarrow> Inl Unsupported)"

text \<open>The names of the members of \<open>Object.prototype\<close> (ECMAScript, with its
  annex for browsers): every object of the model inherits them.\<close>

definition objectPrototypeNames :: "string list" where
  "objectPrototypeNames =
     [''constructor'', ''hasOwnProperty'', ''isPrototypeOf'', ''propertyIsEnumerable'',
      ''toLocaleString'', ''toString'', ''valueOf'', ''__proto__'',
      ''__defineGetter__'', ''__defineSetter__'', ''__lookupGetter__'', ''__lookupSetter__'']"

text \<open>\<open>obj[name]\<close>: the own property of that name; without one, the inherited
  member of \<open>Object.prototype\<close> (a function, or for \<open>__proto__\<close> the prototype
  itself); \<open>undefined\<close> otherwise.\<close>

definition getProp :: "(string \<times> jsval) list \<Rightarrow> string \<Rightarrow> jsval" where
  "getProp kvs name =
     (case map_of kvs name of
        Some v \<Rightarrow> v
      | None \<Rightarrow> if name \<in> set objectPrototypeNames then JNative else JUndefined)"

text \<open>
  The enumeration order of the properties of an object: first the names that are array
  indices (a decimal numeral without a leading zero, below \<open>2^32 - 1\<close>), by their
  numbers, then the other names in the order they were created.
\<close>

definition digitOf :: "char \<Rightarrow> nat option" where
  "digitOf c = (let n = (of_char c :: nat) in if 48 \<le> n \<and> n \<le> 57 then Some (n - 48) else None)"

fun decimal :: "string \<Rightarrow> nat \<Rightarrow> nat option" where
  "decimal [] acc = Some acc"
| "decimal (c # cs) acc = (case digitOf c of None \<Rightarrow> None | Some d \<Rightarrow> decimal cs (10 * acc + d))"

definition arrayIndex :: "string \<Rightarrow> nat option" where
  "arrayIndex name =
     (case name of
        [] \<Rightarrow> None
      | c # cs \<Rightarrow>
          if c = CHR ''0'' \<and> cs \<noteq> [] then None
          else (case decimal name 0 of
                  Some n \<Rightarrow> if n < 4294967295 then Some n else None
                | None \<Rightarrow> None))"

fun insertIndex :: "nat \<Rightarrow> string \<Rightarrow> jsval \<Rightarrow> (string \<times> jsval) list \<Rightarrow> (string \<times> jsval) list" where
  "insertIndex i name v [] = [(name, v)]"
| "insertIndex i name v (p # rest) =
     (case arrayIndex (fst p) of
        Some j \<Rightarrow> if j < i then p # insertIndex i name v rest else (name, v) # p # rest
      | None \<Rightarrow> (name, v) # p # rest)"

text \<open>\<open>obj[name] = v\<close>, for a name that does not reach the setter of
  \<open>__proto__\<close>: an own property keeps its place and takes the value; a new property
  takes its place in the enumeration order.\<close>

definition setProp :: "string \<Rightarrow> jsval \<Rightarrow> (string \<times> jsval) list \<Rightarrow> (string \<times> jsval) list" where
  "setProp name v kvs =
     (if name \<in> fst ` set kvs then AList.update name v kvs
      else (case arrayIndex name of
              Some i \<Rightarrow> insertIndex i name v kvs
            | None \<Rightarrow> kvs @ [(name, v)]))"

text \<open>\<open>Array.prototype.indexOf\<close>: the first position of an element, or -1.\<close>

fun indexOf :: "'a list \<Rightarrow> 'a \<Rightarrow> int" where
  "indexOf [] y = - 1"
| "indexOf (x # xs) y =
     (if x = y then 0
      else (let i = indexOf xs y in if i = - 1 then - 1 else i + 1))"

text \<open>\<open>xs.splice(index, 1)\<close>: the array without the element at \<open>index\<close>.\<close>

definition splice1 :: "'a list \<Rightarrow> nat \<Rightarrow> 'a list" where
  "splice1 xs index = take index xs @ drop (Suc index) xs"

text \<open>\<open>String.prototype.indexOf\<close>: the first position where \<open>pat\<close> occurs in a
  string, or -1.\<close>

fun strIndexOf :: "string \<Rightarrow> string \<Rightarrow> int" where
  "strIndexOf [] pat = (if pat = [] then 0 else - 1)"
| "strIndexOf (c # cs) pat =
     (if take (length pat) (c # cs) = pat then 0
      else (let i = strIndexOf cs pat in if i = - 1 then - 1 else i + 1))"

text \<open>\<open>str.replace(pat, rep)\<close> with a string pattern: the first occurrence of
  \<open>pat\<close> is replaced, a string without one is returned as it is.\<close>

fun replace :: "string \<Rightarrow> string \<Rightarrow> string \<Rightarrow> string" where
  "replace [] pat rep = (if pat = [] then rep else [])"
| "replace (c # cs) pat rep =
     (if take (length pat) (c # cs) = pat then rep @ drop (length pat) (c # cs)
      else c # replace cs pat rep)"

section \<open>Options, stored entries and the storage backend\<close>

text \<open>
  Modelled from the spec: the interfaces \<open>CacheOptionsInterface\<close> and
  \<open>StorageValueInterface\<close> are not among the sources. As \<open>CacheService\<close> uses
  them: \<open>expires\<close> and \<open>maxAge\<close> are numbers and \<open>tag\<close> is a string, each
  optional; a stored entry is the value and the options \<open>_toStorageOptions\<close>
  computed for it.
\<close>

record CacheOptionsInterface =
  expires :: "number option"
  maxAge :: "number option"
  tag :: "string option"

record StorageValueInterface =
  val :: jsval
  options :: CacheOptionsInterface

datatype CacheStoragesEnum = LOCAL_STORAGE | SESSION_STORAGE | MEMORY

text \<open>
  Modelled from the spec: the backend classes (\<open>CacheSessionStorage\<close>,
  \<open>CacheLocalStorage\<close>, \<open>CacheMemoryStorage\<close>) are not among the sources, only
  the abstract class \<open>CacheStorageAbstract\<close> they implement. A backend is a
  synchronous key/value store with a type and an enabled flag: \<open>getItem\<close> returns the
  entry stored under a key or nothing, \<open>setItem\<close> stores an entry (the success flag,
  which \<open>set\<close> discards, is left out), \<open>removeItem\<close> deletes one and \<open>clear\<close>
  all of them. What is read is the stored entry itself, by value.
\<close>

record CacheStorageAbstract =
  items :: "string \<rightharpoonup> StorageValueInterface"
  storageType :: CacheStoragesEnum
  enabled :: bool

definition getItem :: "CacheStorageAbstract \<Rightarrow> string \<Rightarrow> StorageValueInterface option" where
  "getItem st key = items st key"

definition setItem :: "CacheStorageAbstract \<Rightarrow> string \<Rightarrow> StorageValueInterface \<Rightarrow> CacheStorageAbstract" where
  "setItem st key v = st\<lparr>items := (items st)(key \<mapsto> v)\<rparr>"

definition removeItem :: "CacheStorageAbstract \<Rightarrow> string \<Rightarrow> CacheStorageAbstract" where
  "removeItem st key = st\<lparr>items := (items st)(key := None)\<rparr>"

definition clear :: "CacheStorageAbstract \<Rightarrow> CacheStorageAbstract" where
  "clear st = st\<lparr>items := Map.empty\<rparr>"

definition isEnabled :: "CacheStorageAbstract \<Rightarrow> bool" where
  "isEnabled st = enabled st"

text \<open>
  Modelled from the spec: what the constructors of the three backends return depends on
  the host (whether the browser's session and local storage can be used, and what they
  hold); the in-memory backend starts empty and is always enabled.
\<close>

record Host =
  sessionEnabled :: bool
  sessionItems :: "string \<rightharpoonup> StorageValueInterface"
  localEnabled :: bool
  localItems :: "string \<rightharpoonup> StorageValueInterface"

definition CacheSessionStorage :: "Host \<Rightarrow> CacheStorageAbstract" where
  "CacheSessionStorage host =
     \<lparr>items = sessionItems host, storageType = SESSION_STORAGE, enabled = sessionEnabled host\<rparr>"

definition CacheLocalStorage :: "Host \<Rightarrow> CacheStorageAbstract" where
  "CacheLocalStorage host =
     \<lparr>items = localItems host, storageType = LOCAL_STORAGE, enabled = localEnabled host\<rparr>"

definition CacheMemoryStorage :: CacheStorageAbstract where
  "CacheMemoryStorage = \<lparr>items = Map.empty, storageType = MEMORY, enabled = True\<rparr>"

section \<open>The cache service\<close>

definition CACHE_PREFIX :: string where
  "CACHE_PREFIX = ''CacheService''"

definition DEFAULT_STORAGE :: CacheStoragesEnum where
  "DEFAULT_STORAGE = SESSION_STORAGE"

definition DEFAULT_ENABLED_STORAGE :: CacheStoragesEnum where
  "DEFAULT_ENABLED_STORAGE = MEMORY"

text \<open>\<open>Number.MAX_VALUE\<close>, the largest finite double: \<open>(2^53 - 1) * 2^971\<close>.\<close>

definition Number_MAX_VALUE :: int where
  "Number_MAX_VALUE = (2 ^ 53 - 1) * 2 ^ 971"

definition defaultOptions :: CacheOptionsInterface where
  "defaultOptions =
     \<lparr>expires = Some (Finite (of_int Number_MAX_VALUE)), maxAge = Some (Finite (of_int Number_MAX_VALUE)),
      tag = None\<rparr>"

subsection \<open>Construction\<close>

definition initStorage :: "Host \<Rightarrow> CacheStoragesEnum \<Rightarrow> CacheStorageAbstract" where
  "initStorage host type =
     (case type of
        SESSION_STORAGE \<Rightarrow> CacheSessionStorage host
      | LOCAL_STORAGE \<Rightarrow> CacheLocalStorage host
      | MEMORY \<Rightarrow> CacheMemoryStorage)"

definition validateStorage :: "Host \<Rightarrow> CacheStorageAbstract option \<Rightarrow> CacheStorageAbstract" where
  "validateStorage host storage =
     (let s1 = (case storage of None \<Rightarrow> initStorage host DEFAULT_STORAGE | Some s \<Rightarrow> s)
      in if \<not> isEnabled s1 then initStorage host DEFAULT_ENABLED_STORAGE else s1)"

text \<open>The constructor: the state of a service is its backend (the default options
  are never assigned again).\<close>

definition constructor :: "Host \<Rightarrow> CacheStorageAbstract option \<Rightarrow> CacheStorageAbstract" where
  "constructor host storage = validateStorage host storage"

subsection \<open>Keys, options, validation\<close>

definition toStorageKey :: "string \<Rightarrow> string" where
  "toStorageKey key = CACHE_PREFIX @ key"

definition fromStorageKey :: "string \<Rightarrow> string" where
  "fromStorageKey key = replace key CACHE_PREFIX []"

definition tagsStorageKey :: string where
  "tagsStorageKey = ''CacheService_tags''"

definition isSystemKey :: "string \<Rightarrow> bool" where
  "isSystemKey key = (indexOf [tagsStorageKey] key \<noteq> - 1)"

text \<open>\<open>now\<close> is what \<open>Date.now()\<close> returns; during one call of the service the
  clock stands.\<close>

definition toStorageOptions :: "int \<Rightarrow> CacheOptionsInterface \<Rightarrow> CacheOptionsInterface" where
  "toStorageOptions now opts =
     \<lparr>expires =
        (if truthyNum (expires opts) then expires opts
         else if truthyNum (maxAge opts) then map_option (\<lambda>m. plusNow now (times1000 m)) (maxAge opts)
         else expires defaultOptions),
      maxAge = (if truthyNum (maxAge opts) then maxAge opts else maxAge defaultOptions),
      tag = None\<rparr>"

definition toStorageValue :: "int \<Rightarrow> jsval \<Rightarrow> CacheOptionsInterface \<Rightarrow> StorageValueInterface" where
  "toStorageValue now v opts = \<lparr>val = v, options = toStorageOptions now opts\<rparr>"

text \<open>\<open>value.options.expires > Date.now()\<close>; a comparison with \<open>undefined\<close> is
  false.\<close>

definition validateStorageValue :: "int \<Rightarrow> StorageValueInterface \<Rightarrow> bool" where
  "validateStorageValue now sv =
     (case expires (options sv) of None \<Rightarrow> False | Some e \<Rightarrow> greaterThan e now)"

subsection \<open>The tag table\<close>

text \<open>
  The loop of \<open>_removeFromTag\<close> over the tags of the table, in the order of
  \<open>for (let tag in tags)\<close>: the table after the first list that holds the key has
  lost its first occurrence (\<open>Some\<close>; the caller then stores the table and stops),
  or \<open>None\<close> when no list holds it. A string has an \<open>indexOf\<close> of its own and
  no \<open>splice\<close>; the other values have neither.
\<close>

fun removeFromTag_scan ::
  "string \<Rightarrow> (string \<times> jsval) list \<Rightarrow> string list \<Rightarrow> error + (string \<times> jsval) list option" where
  "removeFromTag_scan key tags [] = Inr None"
| "removeFromTag_scan key tags (tg # rest) =
     (case getProp tags tg of
        JArr xs \<Rightarrow>
          (let index = indexOf xs (JStr key)
           in if index \<noteq> - 1
              then Inr (Some (AList.update tg (JArr (splice1 xs (nat index))) tags))
              else removeFromTag_scan key tags rest)
      | JStr str \<Rightarrow>
          (if strIndexOf str key \<noteq> - 1 then Inl TypeError
           else removeFromTag_scan key tags rest)
      | _ \<Rightarrow> Inl TypeError)"

text \<open>The table \<open>_saveTag\<close> stores: \<open>tags[tag] = [key]\<close> when \<open>tags[tag]\<close> is
  falsy, \<open>tags[tag].push(key)\<close> otherwise.\<close>

definition saveTag_table ::
  "(string \<times> jsval) list \<Rightarrow> string \<Rightarrow> string \<Rightarrow> error + (string \<times> jsval) list" where
  "saveTag_table tags tg key =
     (if \<not> truthy (getProp tags tg) then Inr (setProp tg (JArr [JStr key]) tags)
      else (case getProp tags tg of
              JArr xs \<Rightarrow> Inr (AList.update tg (JArr (xs @ [JStr key])) tags)
            | _ \<Rightarrow> Inl TypeError))"

subsection \<open>set, get, remove\<close>

text \<open>
  \<open>set\<close>, \<open>get\<close>, \<open>remove\<close>, \<open>_removeFromTag\<close> and \<open>_saveTag\<close> call each
  other. The first argument bounds the depth of the calls: every call passes one less
  to the calls it makes. Each function takes the backend and returns the backend it
  leaves.
\<close>

function (sequential) get_fuel :: "nat \<Rightarrow> CacheStorageAbstract \<Rightarrow> int \<Rightarrow> string \<Rightarrow> error + (CacheStorageAbstract \<times> jsval)"
  and remove_fuel :: "nat \<Rightarrow> CacheStorageAbstract \<Rightarrow> int \<Rightarrow> string \<Rightarrow> error + CacheStorageAbstract"
  and removeFromTag_fuel :: "nat \<Rightarrow> CacheStorageAbstract \<Rightarrow> int \<Rightarrow> string \<Rightarrow> error + CacheStorageAbstract"
  and set_fuel :: "nat \<Rightarrow> CacheStorageAbstract \<Rightarrow> int \<Rightarrow> string \<Rightarrow> jsval \<Rightarrow> CacheOptionsInterface option \<Rightarrow> error + CacheStorageAbstract"
  and saveTag_fuel :: "nat \<Rightarrow> CacheStorageAbstract \<Rightarrow> int \<Rightarrow> string \<Rightarrow> string \<Rightarrow> error + CacheStorageAbstract"
where
  "get_fuel 0 st now key = Inl OutOfFuel"
| "get_fuel (Suc n) st now key =
     (case getItem st (toStorageKey key) of
        None \<Rightarrow> Inr (st, JNull)
      | Some storageValue \<Rightarrow>
          if validateStorageValue now storageValue then Inr (st, val storageValue)
          else (case remove_fuel n st now key of
                  Inl e \<Rightarrow> Inl e
                | Inr st' \<Rightarrow> Inr (st', JNull)))"
| "remove_fuel 0 st now key = Inl OutOfFuel"
| "remove_fuel (Suc n) st now key =
     removeFromTag_fuel n (removeItem st (toStorageKey key)) now (toStorageKey key)"
| "removeFromTag_fuel 0 st now key = Inl OutOfFuel"
| "removeFromTag_fuel (Suc n) st now key =
     (case get_fuel n st now tagsStorageKey of
        Inl e \<Rightarrow> Inl e
      | Inr (st', r) \<Rightarrow>
          (case asObject (orEmpty r) of
             Inl e \<Rightarrow> Inl e
           | Inr tags \<Rightarrow>
               (case removeFromTag_scan key tags (map fst tags) of
                  Inl e \<Rightarrow> Inl e
                | Inr None \<Rightarrow> Inr st'
                | Inr (Some tags') \<Rightarrow> set_fuel n st' now tagsStorageKey (JObj tags') None)))"
| "set_fuel 0 st now key v opts = Inl OutOfFuel"
| "set_fuel (Suc n) st now key v opts =
     (let storageKey = toStorageKey key;
          opts' = (case opts of Some given \<Rightarrow> given | None \<Rightarrow> defaultOptions);
          st' = setItem st storageKey (toStorageValue now v opts')
      in if \<not> isSystemKey key \<and> truthyStr (tag opts')
         then (case tag opts' of
                 Some t \<Rightarrow> saveTag_fuel n st' now t storageKey
               | None \<Rightarrow> Inr st')
         else Inr st')"
| "saveTag_fuel 0 st now tg key = Inl OutOfFuel"
| "saveTag_fuel (Suc n) st now tg key =
     (case get_fuel n st now tagsStorageKey of
        Inl e \<Rightarrow> Inl e
      | Inr (st', r) \<Rightarrow>
          (case asObject (orEmpty r) of
             Inl e \<Rightarrow> Inl e
           | Inr tags \<Rightarrow>
               (case saveTag_table tags tg key of
                  Inl e \<Rightarrow> Inl e
                | Inr tags' \<Rightarrow> set_fuel n st' now tagsStorageKey (JObj tags') None)))"

  by pat_completeness auto
termination
  by (relation "measure (\<lambda>x. case x of
        Inl (Inl (n, _)) \<Rightarrow> n
      | Inl (Inr (n, _)) \<Rightarrow> n
      | Inr (Inl (n, _)) \<Rightarrow> n
      | Inr (Inr (Inl (n, _))) \<Rightarrow> n
      | Inr (Inr (Inr (n, _))) \<Rightarrow> n)") auto

text \<open>The deepest chain of calls is \<open>get\<close>, \<open>remove\<close>, \<open>_removeFromTag\<close>,
  \<open>get\<close> (of the tag table, expired), \<open>remove\<close>, \<open>_removeFromTag\<close>, \<open>get\<close>
  (of the tag table, now gone): seven calls.\<close>

definition fuel :: nat where
  "fuel = 7"

definition cache_set ::
  "CacheStorageAbstract \<Rightarrow> int \<Rightarrow> string \<Rightarrow> jsval \<Rightarrow> CacheOptionsInterface option \<Rightarrow> error + CacheStorageAbstract" where
  "cache_set st now key v opts = set_fuel fuel st now key v opts"

definition cache_get :: "CacheStorageAbstract \<Rightarrow> int \<Rightarrow> string \<Rightarrow> error + (CacheStorageAbstract \<times> jsval)" where
  "cache_get st now key = get_fuel fuel st now key"

definition cache_remove :: "CacheStorageAbstract \<Rightarrow> int \<Rightarrow> string \<Rightarrow> error + CacheStorageAbstract" where
  "cache_remove st now key = remove_fuel fuel st now key"

definition removeFromTag :: "CacheStorageAbstract \<Rightarrow> int \<Rightarrow> string \<Rightarrow> error + CacheStorageAbstract" where
  "removeFromTag st now key = removeFromTag_fuel fuel st now key"

definition saveTag :: "CacheStorageAbstract \<Rightarrow> int \<Rightarrow> string \<Rightarrow> string \<Rightarrow> error + CacheStorageAbstract" where
  "saveTag st now tg key = saveTag_fuel fuel st now tg key"

text \<open>\<open>exists\<close>: \<open>!!this.get(key)\<close>.\<close>

definition cache_exists :: "CacheStorageAbstract \<Rightarrow> int \<Rightarrow> string \<Rightarrow> error + (CacheStorageAbstract \<times> bool)" where
  "cache_exists st now key =
     (case cache_get st now key of
        Inl e \<Rightarrow> Inl e
      | Inr (st', v) \<Rightarrow> Inr (st', truthy v))"

definition removeAll :: "CacheStorageAbstract \<Rightarrow> CacheStorageAbstract" where
  "removeAll st = clear st"

subsection \<open>getTagData, removeTag\<close>

text \<open>\<open>result[name] = data\<close> on the result object of \<open>getTagData\<close>: the name
  \<open>__proto__\<close> reaches the setter of \<open>Object.prototype\<close>, which gives the object
  no property of its own (the prototype it may set is not part of the result of the
  model).\<close>

definition setResult :: "string \<Rightarrow> jsval \<Rightarrow> (string \<times> jsval) list \<Rightarrow> (string \<times> jsval) list" where
  "setResult name data result = (if name = ''__proto__'' then result else setProp name data result)"

text \<open>The \<open>forEach\<close> of \<open>getTagData\<close> over the keys listed under the tag, with the
  result object built so far; a key that is not a string has no \<open>replace\<close>.\<close>

fun getTagData_each ::
  "CacheStorageAbstract \<Rightarrow> int \<Rightarrow> jsval list \<Rightarrow> (string \<times> jsval) list
     \<Rightarrow> error + (CacheStorageAbstract \<times> (string \<times> jsval) list)" where
  "getTagData_each st now [] result = Inr (st, result)"
| "getTagData_each st now (key # keys) result =
     (case key of
        JStr k \<Rightarrow>
          (case cache_get st now (fromStorageKey k) of
             Inl e \<Rightarrow> Inl e
           | Inr (st', data) \<Rightarrow>
               getTagData_each st' now keys
                 (if truthy data then setResult (fromStorageKey k) data result else result))
      | _ \<Rightarrow> Inl TypeError)"

definition getTagData ::
  "CacheStorageAbstract \<Rightarrow> int \<Rightarrow> string \<Rightarrow> error + (CacheStorageAbstract \<times> (string \<times> jsval) list)" where
  "getTagData st now tg =
     (case cache_get st now tagsStorageKey of
        Inl e \<Rightarrow> Inl e
      | Inr (st', r) \<Rightarrow>
          (case asObject (orEmpty r) of
             Inl e \<Rightarrow> Inl e
           | Inr tags \<Rightarrow>
               if truthy (getProp tags tg)
               then (case getProp tags tg of
                       JArr keys \<Rightarrow> getTagData_each st' now keys []
                     | _ \<Rightarrow> Inl TypeError)
               else Inr (st', [])))"

text \<open>The \<open>forEach\<close> of \<open>removeTag\<close>: \<open>removeItem\<close> on every listed key.\<close>

fun removeTag_each :: "CacheStorageAbstract \<Rightarrow> jsval list \<Rightarrow> error + CacheStorageAbstract" where
  "removeTag_each st [] = Inr st"
| "removeTag_each st (key # keys) =
     (case key of
        JStr k \<Rightarrow> removeTag_each (removeItem st k) keys
      | _ \<Rightarrow> Inl Unsupported)"

definition removeTag :: "CacheStorageAbstract \<Rightarrow> int \<Rightarrow> string \<Rightarrow> error + CacheStorageAbstract" where
  "removeTag st now tg =
     (case cache_get st now tagsStorageKey of
        Inl e \<Rightarrow> Inl e
      | Inr (st', r) \<Rightarrow>
          (case asObject (orEmpty r) of
             Inl e \<Rightarrow> Inl e
           | Inr tags \<Rightarrow>
               if truthy (getProp tags tg)
               then (case getProp tags tg of
                       JArr keys \<Rightarrow>
                         (case removeTag_each st' keys of
                            Inl e \<Rightarrow> Inl e
                          | Inr st'' \<Rightarrow>
                              cache_set st'' now tagsStorageKey (JObj (AList.delete tg tags)) None)
                     | _ \<Rightarrow> Inl TypeError)
               else Inr st'))"

section \<open>The tag table of a backend\<close>

text \<open>
  The tag table as the service reads it at the time \<open>now\<close>: the object held by the
  entry under the reserved key, when that entry is stored and has not expired; the
  empty table otherwise (\<open>this.get(this._tagsStorageKey()) || {}\<close>).
\<close>

definition tagIndex :: "CacheStorageAbstract \<Rightarrow> int \<Rightarrow> (string \<times> jsval) list" where
  "tagIndex st now =
     (case getItem st (toStorageKey tagsStorageKey) of
        None \<Rightarrow> []
      | Some sv \<Rightarrow>
          if validateStorageValue now sv
          then (case orEmpty (val sv) of JObj kvs \<Rightarrow> kvs | _ \<Rightarrow> [])
          else [])"

text \<open>The keys listed under a tag of a table: none when the table has no such tag.\<close>

definition keysOf :: "(string \<times> jsval) list \<Rightarrow> string \<Rightarrow> jsval list" where
  "keysOf tbl tg = (case getProp tbl tg of JArr xs \<Rightarrow> xs | _ \<Rightarrow> [])"

text \<open>The backend the service is left with once it has read the tag table: an expired
  entry under the reserved key is removed by the read.\<close>

definition afterRead :: "CacheStorageAbstract \<Rightarrow> int \<Rightarrow> CacheStorageAbstract" where
  "afterRead st now =
     (case getItem st (toStorageKey tagsStorageKey) of
        None \<Rightarrow> st
      | Some sv \<Rightarrow>
          if validateStorageValue now sv then st
          else removeItem st (toStorageKey tagsStorageKey))"

text \<open>
  The shape of the table the service itself writes: an object, with distinct property
  names, every property an array of strings. A backend is well formed when the entry
  under the reserved key, if there is one, holds such a table or a falsy value.
\<close>

fun isKeyList :: "jsval \<Rightarrow> bool" where
  "isKeyList (JArr xs) = list_all (\<lambda>x. case x of JStr k \<Rightarrow> True | _ \<Rightarrow> False) xs"
| "isKeyList _ = False"

fun isTagTable :: "jsval \<Rightarrow> bool" where
  "isTagTable (JObj kvs) = (distinct (map fst kvs) \<and> list_all (\<lambda>p. isKeyList (snd p)) kvs)"
| "isTagTable _ = False"

definition tagsWellFormed :: "CacheStorageAbstract \<Rightarrow> bool" where
  "tagsWellFormed st =
     (case getItem st (toStorageKey tagsStorageKey) of
        None \<Rightarrow> True
      | Some sv \<Rightarrow> isTagTable (orEmpty (val sv)))"

text \<open>What \<open>get\<close> returns for a key, read off the backend: the stored value of an
  entry that has not expired, \<open>null\<close> otherwise.\<close>

definition lookup :: "CacheStorageAbstract \<Rightarrow> int \<Rightarrow> string \<Rightarrow> jsval" where
  "lookup st now key =
     (case getItem st (toStorageKey key) of
        None \<Rightarrow> JNull
      | Some sv \<Rightarrow> if validateStorageValue now sv then val sv else JNull)"

section \<open>Basic facts\<close>

lemma Number_MAX_VALUE_pos: "0 < Number_MAX_VALUE"
  by (simp add: Number_MAX_VALUE_def)

lemma Number_MAX_VALUE_neq0: "Number_MAX_VALUE \<noteq> 0"
  using Number_MAX_VALUE_pos by simp

lemma toStorageKey_inj: "(toStorageKey a = toStorageKey b) = (a = b)"
  by (simp add: toStorageKey_def)

lemma isSystemKey_iff: "isSystemKey key = (key = tagsStorageKey)"
  by (auto simp: isSystemKey_def)

lemma replace_prefix: "pat \<noteq> [] \<Longrightarrow> replace (pat @ s) pat rep = rep @ s"
  by (cases pat) simp_all

lemma fromStorageKey_toStorageKey: "fromStorageKey (toStorageKey key) = key"
  by (simp add: fromStorageKey_def toStorageKey_def replace_prefix CACHE_PREFIX_def)

lemma getItem_setItem: "getItem (setItem st k v) k' = (if k' = k then Some v else getItem st k')"
  by (simp add: getItem_def setItem_def)

lemma getItem_removeItem: "getItem (removeItem st k) k' = (if k' = k then None else getItem st k')"
  by (simp add: getItem_def removeItem_def)

lemma set_fuel_None:
  "set_fuel (Suc n) st now key v None = Inr (setItem st (toStorageKey key) (toStorageValue now v defaultOptions))"
  by (simp add: defaultOptions_def)

lemma set_fuel_system:
  "set_fuel (Suc n) st now tagsStorageKey v opts =
     Inr (setItem st (toStorageKey tagsStorageKey)
            (toStorageValue now v (case opts of Some given \<Rightarrow> given | None \<Rightarrow> defaultOptions)))"
  by (simp add: isSystemKey_iff)

lemma get_fuel_absent:
  "getItem st (toStorageKey key) = None \<Longrightarrow> get_fuel (Suc n) st now key = Inr (st, JNull)"
  by simp

lemma removeFromTag_fuel_absent:
  "getItem st (toStorageKey tagsStorageKey) = None \<Longrightarrow>
   removeFromTag_fuel (Suc (Suc n)) st now key = Inr st"
  by (simp add: orEmpty_def asObject_def)

lemma remove_fuel_system:
  "remove_fuel (Suc (Suc (Suc n))) st now tagsStorageKey = Inr (removeItem st (toStorageKey tagsStorageKey))"
  by (simp add: removeFromTag_fuel_absent getItem_removeItem del: removeFromTag_fuel.simps)

lemma get_fuel_system:
  "get_fuel (Suc (Suc (Suc (Suc n)))) st now tagsStorageKey =
     (case getItem st (toStorageKey tagsStorageKey) of
        None \<Rightarrow> Inr (st, JNull)
      | Some sv \<Rightarrow>
          if validateStorageValue now sv then Inr (st, val sv)
          else Inr (removeItem st (toStorageKey tagsStorageKey), JNull))"
  by (simp add: remove_fuel_system del: remove_fuel.simps split: option.splits)

lemma get_fuel_system_stable:
  "get_fuel (Suc (Suc (Suc (Suc n)))) st now tagsStorageKey = get_fuel (Suc (Suc (Suc (Suc 0)))) st now tagsStorageKey"
  by (simp only: get_fuel_system)

lemma removeFromTag_fuel_stable:
  "removeFromTag_fuel (Suc (Suc (Suc (Suc (Suc n))))) st now key =
   removeFromTag_fuel (Suc (Suc (Suc (Suc (Suc 0))))) st now key"
  unfolding removeFromTag_fuel.simps(2) [of "Suc (Suc (Suc (Suc n)))"]
    removeFromTag_fuel.simps(2) [of "Suc (Suc (Suc (Suc 0)))"]
    get_fuel_system set_fuel_None ..

lemma remove_fuel_stable:
  "remove_fuel (Suc (Suc (Suc (Suc (Suc (Suc n)))))) st now key =
   remove_fuel (Suc (Suc (Suc (Suc (Suc (Suc 0)))))) st now key"
  unfolding remove_fuel.simps(2) [of "Suc (Suc (Suc (Suc (Suc n))))"]
    remove_fuel.simps(2) [of "Suc (Suc (Suc (Suc (Suc 0))))"]
  by (rule removeFromTag_fuel_stable)

lemma get_fuel_stable:
  "get_fuel (Suc (Suc (Suc (Suc (Suc (Suc (Suc n))))))) st now key =
   get_fuel (Suc (Suc (Suc (Suc (Suc (Suc (Suc 0))))))) st now key"
  unfolding get_fuel.simps(2) [of "Suc (Suc (Suc (Suc (Suc (Suc n)))))"]
    get_fuel.simps(2) [of "Suc (Suc (Suc (Suc (Suc (Suc 0)))))"]
    remove_fuel_stable [of n] ..

lemma saveTag_fuel_stable:
  "saveTag_fuel (Suc (Suc (Suc (Suc (Suc n))))) st now tg key =
   saveTag_fuel (Suc (Suc (Suc (Suc (Suc 0))))) st now tg key"
  unfolding saveTag_fuel.simps(2) [of "Suc (Suc (Suc (Suc n)))"]
    saveTag_fuel.simps(2) [of "Suc (Suc (Suc (Suc 0)))"]
    get_fuel_system set_fuel_None ..

lemma set_fuel_stable:
  "set_fuel (Suc (Suc (Suc (Suc (Suc (Suc n)))))) st now key v opts =
   set_fuel (Suc (Suc (Suc (Suc (Suc (Suc 0)))))) st now key v opts"
  unfolding set_fuel.simps(2) [of "Suc (Suc (Suc (Suc (Suc n))))"]
    set_fuel.simps(2) [of "Suc (Suc (Suc (Suc (Suc 0))))"]
    saveTag_fuel_stable [of n] ..

section \<open>The service without the bound on the calls\<close>

text \<open>With the fuel of the definitions, every function satisfies the equation the source
  gives for it.\<close>

lemma fuel_eq: "fuel = Suc (Suc (Suc (Suc (Suc (Suc (Suc 0))))))"
  by (simp add: fuel_def eval_nat_numeral)

lemma cache_get_system:
  "cache_get st now tagsStorageKey =
     (case getItem st (toStorageKey tagsStorageKey) of
        None \<Rightarrow> Inr (st, JNull)
      | Some sv \<Rightarrow>
          if validateStorageValue now sv then Inr (st, val sv)
          else Inr (removeItem st (toStorageKey tagsStorageKey), JNull))"
  unfolding cache_get_def fuel_eq by (rule get_fuel_system)

lemma cache_set_None:
  "cache_set st now key v None = Inr (setItem st (toStorageKey key) (toStorageValue now v defaultOptions))"
  unfolding cache_set_def fuel_eq by (rule set_fuel_None)

lemma cache_remove_eq:
  "cache_remove st now key = removeFromTag (removeItem st (toStorageKey key)) now (toStorageKey key)"
  unfolding cache_remove_def removeFromTag_def fuel_eq remove_fuel.simps
    removeFromTag_fuel_stable [of "Suc 0"] removeFromTag_fuel_stable [of "Suc (Suc 0)"] ..

lemma cache_get_eq:
  "cache_get st now key =
     (case getItem st (toStorageKey key) of
        None \<Rightarrow> Inr (st, JNull)
      | Some storageValue \<Rightarrow>
          if validateStorageValue now storageValue then Inr (st, val storageValue)
          else (case cache_remove st now key of
                  Inl e \<Rightarrow> Inl e
                | Inr st' \<Rightarrow> Inr (st', JNull)))"
  unfolding cache_get_def cache_remove_def fuel_eq get_fuel.simps
    remove_fuel_stable [of "Suc 0"] ..

lemma removeFromTag_eq:
  "removeFromTag st now key =
     (case cache_get st now tagsStorageKey of
        Inl e \<Rightarrow> Inl e
      | Inr (st', r) \<Rightarrow>
          (case asObject (orEmpty r) of
             Inl e \<Rightarrow> Inl e
           | Inr tags \<Rightarrow>
               (case removeFromTag_scan key tags (map fst tags) of
                  Inl e \<Rightarrow> Inl e
                | Inr None \<Rightarrow> Inr st'
                | Inr (Some tags') \<Rightarrow> cache_set st' now tagsStorageKey (JObj tags') None)))"
  unfolding removeFromTag_def cache_get_def cache_set_def fuel_eq removeFromTag_fuel.simps
    get_fuel_system set_fuel_None ..

lemma saveTag_eq:
  "saveTag st now tg key =
     (case cache_get st now tagsStorageKey of
        Inl e \<Rightarrow> Inl e
      | Inr (st', r) \<Rightarrow>
          (case asObject (orEmpty r) of
             Inl e \<Rightarrow> Inl e
           | Inr tags \<Rightarrow>
               (case saveTag_table tags tg key of
                  Inl e \<Rightarrow> Inl e
                | Inr tags' \<Rightarrow> cache_set st' now tagsStorageKey (JObj tags') None)))"
  unfolding saveTag_def cache_get_def cache_set_def fuel_eq saveTag_fuel.simps
    get_fuel_system set_fuel_None ..

lemma cache_set_eq:
  "cache_set st now key v opts =
     (let storageKey = toStorageKey key;
          opts' = (case opts of Some given \<Rightarrow> given | None \<Rightarrow> defaultOptions);
          st' = setItem st storageKey (toStorageValue now v opts')
      in if \<not> isSystemKey key \<and> truthyStr (tag opts')
         then (case tag opts' of
                 Some t \<Rightarrow> saveTag st' now t storageKey
               | None \<Rightarrow> Inr st')
         else Inr st')"
  unfolding cache_set_def saveTag_def fuel_eq set_fuel.simps
    saveTag_fuel_stable [of "Suc 0"] saveTag_fuel_stable [of "Suc (Suc 0)"] ..

lemma fuel_enough:
  assumes "fuel \<le> n"
  shows "get_fuel n st now key = cache_get st now key"
    and "remove_fuel n st now key = cache_remove st now key"
    and "removeFromTag_fuel n st now key = removeFromTag st now key"
    and "set_fuel n st now key v opts = cache_set st now key v opts"
    and "saveTag_fuel n st now tg key = saveTag st now tg key"
proof -
  from assms obtain m where "n = fuel + m"
    using le_Suc_ex by blast
  then have n: "n = Suc (Suc (Suc (Suc (Suc (Suc (Suc m))))))"
    by (simp add: fuel_eq)
  show "get_fuel n st now key = cache_get st now key"
    unfolding n cache_get_def fuel_eq by (rule get_fuel_stable)
  show "remove_fuel n st now key = cache_remove st now key"
    unfolding n cache_remove_def fuel_eq
    by (simp only: remove_fuel_stable [of "Suc m"] remove_fuel_stable [of "Suc 0"])
  show "removeFromTag_fuel n st now key = removeFromTag st now key"
    unfolding n removeFromTag_def fuel_eq
    by (simp only: removeFromTag_fuel_stable [of "Suc (Suc m)"] removeFromTag_fuel_stable [of "Suc (Suc 0)"])
  show "set_fuel n st now key v opts = cache_set st now key v opts"
    unfolding n cache_set_def fuel_eq
    by (simp only: set_fuel_stable [of "Suc m"] set_fuel_stable [of "Suc 0"])
  show "saveTag_fuel n st now tg key = saveTag st now tg key"
    unfolding n saveTag_def fuel_eq
    by (simp only: saveTag_fuel_stable [of "Suc (Suc m)"] saveTag_fuel_stable [of "Suc (Suc 0)"])
qed

lemma indexOf_ge: "- 1 \<le> indexOf xs y"
  by (induction xs) (auto simp: Let_def)

lemma indexOf_absent: "(indexOf xs y = - 1) = (y \<notin> set xs)"
proof (induction xs)
  case Nil
  then show ?case by simp
next
  case (Cons x xs)
  have "- 1 \<le> indexOf xs y" by (rule indexOf_ge)
  with Cons show ?case by (auto simp: Let_def)
qed

lemma splice1_indexOf: "y \<in> set xs \<Longrightarrow> splice1 xs (nat (indexOf xs y)) = remove1 y xs"
proof (induction xs)
  case Nil
  then show ?case by simp
next
  case (Cons x xs)
  show ?case
  proof (cases "x = y")
    case True
    then show ?thesis by (simp add: splice1_def)
  next
    case False
    with Cons.prems have mem: "y \<in> set xs" by simp
    then have "indexOf xs y \<noteq> - 1" by (simp add: indexOf_absent)
    moreover have "- 1 \<le> indexOf xs y" by (rule indexOf_ge)
    ultimately have nonneg: "0 \<le> indexOf xs y" by linarith
    then have "nat (indexOf xs y + 1) = Suc (nat (indexOf xs y))" by simp
    with False Cons.IH [OF mem] \<open>indexOf xs y \<noteq> - 1\<close> show ?thesis
      by (simp add: splice1_def Let_def)
  qed
qed

lemma getProp_distinct: "distinct (map fst tbl) \<Longrightarrow> (t, v) \<in> set tbl \<Longrightarrow> getProp tbl t = v"
  by (simp add: getProp_def)

lemma getProp_absent:
  "t \<notin> fst ` set tbl \<Longrightarrow> t \<notin> set objectPrototypeNames \<Longrightarrow> getProp tbl t = JUndefined"
  using map_of_eq_None_iff [of tbl t] by (simp add: getProp_def)

lemma getProp_inherited:
  "t \<notin> fst ` set tbl \<Longrightarrow> t \<in> set objectPrototypeNames \<Longrightarrow> getProp tbl t = JNative"
  using map_of_eq_None_iff [of tbl t] by (simp add: getProp_def)

lemma set_insertIndex: "set (insertIndex i name v kvs) = insert (name, v) (set kvs)"
  by (induction kvs) (auto split: option.splits)

lemma map_of_insertIndex:
  "name \<notin> fst ` set kvs \<Longrightarrow> map_of (insertIndex i name v kvs) = (map_of kvs)(name \<mapsto> v)"
proof (induction kvs)
  case Nil
  then show ?case by simp
next
  case (Cons p kvs)
  then have ne: "fst p \<noteq> name" and rest: "name \<notin> fst ` set kvs" by auto
  from Cons.IH [OF rest] ne show ?case
    by (cases p) (auto split: option.splits simp: fun_upd_twist)
qed

lemma distinct_insertIndex:
  "name \<notin> fst ` set kvs \<Longrightarrow> distinct (map fst kvs) \<Longrightarrow> distinct (map fst (insertIndex i name v kvs))"
proof (induction kvs)
  case Nil
  then show ?case by simp
next
  case (Cons p kvs)
  then have ne: "fst p \<noteq> name" and rest: "name \<notin> fst ` set kvs"
    and d: "distinct (map fst kvs)" and fresh: "fst p \<notin> fst ` set kvs" by auto
  have "fst ` set (insertIndex i name v kvs) = insert name (fst ` set kvs)"
    by (simp add: set_insertIndex)
  with Cons.IH [OF rest d] ne fresh rest d show ?case
    by (auto split: option.splits)
qed

lemma setProp_own: "t \<in> fst ` set tbl \<Longrightarrow> setProp t v tbl = AList.update t v tbl"
  by (simp add: setProp_def)


lemma map_of_snoc_new:
  "name \<notin> fst ` set kvs \<Longrightarrow> map_of (kvs @ [(name, v)]) = (map_of kvs)(name \<mapsto> v)"
  by (induction kvs) (auto simp: fun_upd_twist)

lemma map_of_setProp: "map_of (setProp name v kvs) = (map_of kvs)(name \<mapsto> v)"
proof (cases "name \<in> fst ` set kvs")
  case True
  then show ?thesis by (simp add: setProp_def update_conv')
next
  case False
  then show ?thesis
    by (simp add: setProp_def map_of_insertIndex map_of_snoc_new del: map_of_append split: option.splits)
qed

lemma names_setProp: "fst ` set (setProp name v kvs) = insert name (fst ` set kvs)"
proof (cases "name \<in> fst ` set kvs")
  case True
  then have "fst ` set (AList.update name v kvs) = fst ` set kvs"
    using update_keys [of name v kvs] by (metis image_set set_map)
  with True show ?thesis by (auto simp: setProp_def)
next
  case False
  then show ?thesis by (auto simp: setProp_def set_insertIndex split: option.splits)
qed

lemma distinct_setProp: "distinct (map fst kvs) \<Longrightarrow> distinct (map fst (setProp name v kvs))"
  by (auto simp: setProp_def distinct_update distinct_insertIndex split: option.splits)



lemma list_all_update:
  "list_all P al \<Longrightarrow> P (k, v) \<Longrightarrow> list_all P (AList.update k v al)"
  by (induction al) auto

lemma list_all_delete: "list_all P al \<Longrightarrow> list_all P (AList.delete k al)"
  by (induction al) auto

lemma isTagTable_update:
  "isTagTable (JObj tbl) \<Longrightarrow> isKeyList v \<Longrightarrow> isTagTable (JObj (AList.update t v tbl))"
  by (simp add: distinct_update list_all_update)

lemma isTagTable_delete: "isTagTable (JObj tbl) \<Longrightarrow> isTagTable (JObj (AList.delete t tbl))"
  by (simp add: distinct_delete list_all_delete)

lemma isKeyList_getProp:
  "isTagTable (JObj tbl) \<Longrightarrow> t \<in> fst ` set tbl \<Longrightarrow> \<exists>xs. getProp tbl t = JArr xs \<and> isKeyList (JArr xs)"
proof -
  assume wf: "isTagTable (JObj tbl)" and "t \<in> fst ` set tbl"
  then obtain v where v: "(t, v) \<in> set tbl" by auto
  with wf have "getProp tbl t = v" by (simp add: getProp_distinct)
  moreover from wf v have "isKeyList v" by (auto simp: list_all_iff)
  ultimately show ?thesis by (cases v) auto
qed

lemma isKeyList_remove1: "isKeyList (JArr xs) \<Longrightarrow> isKeyList (JArr (remove1 x xs))"
  by (auto simp: list_all_iff dest: notin_set_remove1)


lemma removeFromTag_scan_skip:
  "\<forall>t\<in>set ns. \<exists>xs. getProp tbl t = JArr xs \<and> JStr key \<notin> set xs \<Longrightarrow>
   removeFromTag_scan key tbl (ns @ rest) = removeFromTag_scan key tbl rest"
  by (induction ns) (auto simp: indexOf_absent)

lemma removeFromTag_scan_hit:
  "getProp tbl t = JArr xs \<Longrightarrow> JStr key \<in> set xs \<Longrightarrow>
   removeFromTag_scan key tbl (t # rest) = Inr (Some (AList.update t (JArr (remove1 (JStr key) xs)) tbl))"
  by (simp add: indexOf_absent splice1_indexOf)

lemma removeFromTag_scan_wf:
  "isTagTable (JObj tbl) \<Longrightarrow> set ns \<subseteq> fst ` set tbl \<Longrightarrow>
   removeFromTag_scan key tbl ns = Inr None \<or>
   (\<exists>tbl'. removeFromTag_scan key tbl ns = Inr (Some tbl') \<and> isTagTable (JObj tbl'))"
proof (induction ns)
  case Nil
  then show ?case by simp
next
  case (Cons t ns)
  then obtain xs where xs: "getProp tbl t = JArr xs" "isKeyList (JArr xs)"
    using isKeyList_getProp [of tbl t] by auto
  show ?case
  proof (cases "JStr key \<in> set xs")
    case True
    have "isTagTable (JObj (AList.update t (JArr (remove1 (JStr key) xs)) tbl))"
      using Cons.prems(1) xs(2) by (intro isTagTable_update isKeyList_remove1)
    with True xs(1) show ?thesis by (simp add: removeFromTag_scan_hit del: removeFromTag_scan.simps isTagTable.simps)
  next
    case False
    with xs(1) have "removeFromTag_scan key tbl (t # ns) = removeFromTag_scan key tbl ns"
      by (simp add: indexOf_absent)
    with Cons show ?thesis by simp
  qed
qed

section \<open>Reading and writing the tag table\<close>

lemma toStorageOptions_default: "toStorageOptions now defaultOptions = defaultOptions"
  by (simp add: toStorageOptions_def defaultOptions_def Number_MAX_VALUE_neq0)

lemma toStorageValue_default:
  "toStorageValue now v defaultOptions = \<lparr>val = v, options = defaultOptions\<rparr>"
  by (simp add: toStorageValue_def toStorageOptions_default)

lemma validate_default:
  "validateStorageValue now' (toStorageValue now v defaultOptions) = (now' < Number_MAX_VALUE)"
  unfolding toStorageValue_default validateStorageValue_def
  by (simp add: defaultOptions_def)

lemma val_toStorageValue: "val (toStorageValue now v opts) = v"
  by (simp add: toStorageValue_def)

lemma getItem_afterRead:
  "k \<noteq> toStorageKey tagsStorageKey \<Longrightarrow> getItem (afterRead st now) k = getItem st k"
  by (simp add: afterRead_def getItem_removeItem split: option.splits)

lemma backend_setItem: "storageType (setItem st k v) = storageType st \<and> enabled (setItem st k v) = enabled st"
  by (simp add: setItem_def)

lemma backend_removeItem: "storageType (removeItem st k) = storageType st \<and> enabled (removeItem st k) = enabled st"
  by (simp add: removeItem_def)

lemma backend_afterRead: "storageType (afterRead st now) = storageType st \<and> enabled (afterRead st now) = enabled st"
  by (simp add: afterRead_def backend_removeItem split: option.splits)

lemma tagIndex_afterRead: "tagIndex (afterRead st now) now = tagIndex st now"
  by (simp add: tagIndex_def afterRead_def getItem_removeItem split: option.splits)

lemma tagIndex_setItem_other:
  "k \<noteq> toStorageKey tagsStorageKey \<Longrightarrow> tagIndex (setItem st k v) now = tagIndex st now"
  by (simp add: tagIndex_def getItem_setItem)

lemma tagIndex_removeItem_other:
  "k \<noteq> toStorageKey tagsStorageKey \<Longrightarrow> tagIndex (removeItem st k) now = tagIndex st now"
  by (simp add: tagIndex_def getItem_removeItem)

lemma tagIndex_removeItem_tags: "tagIndex (removeItem st (toStorageKey tagsStorageKey)) now = []"
  by (simp add: tagIndex_def getItem_removeItem)

lemma tagIndex_written:
  "now' < Number_MAX_VALUE \<Longrightarrow>
   tagIndex (setItem st (toStorageKey tagsStorageKey) (toStorageValue now (JObj tbl) defaultOptions)) now' = tbl"
  by (simp add: tagIndex_def getItem_setItem validate_default val_toStorageValue orEmpty_def)

lemma wf_setItem_other:
  "k \<noteq> toStorageKey tagsStorageKey \<Longrightarrow> tagsWellFormed (setItem st k v) = tagsWellFormed st"
  by (simp add: tagsWellFormed_def getItem_setItem)

lemma wf_removeItem: "tagsWellFormed st \<Longrightarrow> tagsWellFormed (removeItem st k)"
  by (simp add: tagsWellFormed_def getItem_removeItem)

lemma wf_afterRead: "tagsWellFormed st \<Longrightarrow> tagsWellFormed (afterRead st now)"
  by (simp add: afterRead_def wf_removeItem split: option.splits)

lemma wf_written:
  "isTagTable (JObj tbl) \<Longrightarrow>
   tagsWellFormed (setItem st (toStorageKey tagsStorageKey) (toStorageValue now (JObj tbl) opts))"
  by (simp add: tagsWellFormed_def getItem_setItem val_toStorageValue orEmpty_def)

lemma tagIndex_wf: "tagsWellFormed st \<Longrightarrow> isTagTable (JObj (tagIndex st now))"
  by (auto simp: tagsWellFormed_def tagIndex_def split: option.splits jsval.splits)

lemma read_tags_wf:
  assumes "tagsWellFormed st"
  shows "\<exists>r. cache_get st now tagsStorageKey = Inr (afterRead st now, r)
           \<and> asObject (orEmpty r) = Inr (tagIndex st now)"
proof (cases "getItem st (toStorageKey tagsStorageKey)")
  case None
  then show ?thesis
    by (simp add: cache_get_system afterRead_def tagIndex_def orEmpty_def asObject_def)
next
  case (Some sv)
  show ?thesis
  proof (cases "validateStorageValue now sv")
    case True
    from assms Some have "isTagTable (orEmpty (val sv))" by (simp add: tagsWellFormed_def)
    then obtain kvs where "orEmpty (val sv) = JObj kvs" by (cases "orEmpty (val sv)") auto
    with Some True show ?thesis
      by (simp add: cache_get_system afterRead_def tagIndex_def asObject_def)
  next
    case False
    with Some show ?thesis
      by (simp add: cache_get_system afterRead_def tagIndex_def orEmpty_def asObject_def)
  qed
qed

lemma removeFromTag_wf:
  assumes "tagsWellFormed st"
  shows "removeFromTag st now key =
     (case removeFromTag_scan key (tagIndex st now) (map fst (tagIndex st now)) of
        Inl e \<Rightarrow> Inl e
      | Inr None \<Rightarrow> Inr (afterRead st now)
      | Inr (Some tags') \<Rightarrow>
          Inr (setItem (afterRead st now) (toStorageKey tagsStorageKey)
                 (toStorageValue now (JObj tags') defaultOptions)))"
proof -
  from read_tags_wf [OF assms, of now] obtain r where
    "cache_get st now tagsStorageKey = Inr (afterRead st now, r)"
    "asObject (orEmpty r) = Inr (tagIndex st now)" by blast
  then show ?thesis
    by (simp add: removeFromTag_eq cache_set_None split: sum.splits option.splits)
qed


lemma saveTag_table_wf:
  assumes "isTagTable (JObj tbl)" and "tg \<notin> set objectPrototypeNames"
  shows "saveTag_table tbl tg key = Inr (setProp tg (JArr (keysOf tbl tg @ [JStr key])) tbl)"
proof (cases "tg \<in> fst ` set tbl")
  case True
  with assms obtain xs where "getProp tbl tg = JArr xs"
    using isKeyList_getProp [of tbl tg] by blast
  with True show ?thesis by (simp add: saveTag_table_def keysOf_def setProp_own)
next
  case False
  then have "getProp tbl tg = JUndefined" using assms(2) by (rule getProp_absent)
  then show ?thesis by (simp add: saveTag_table_def keysOf_def)
qed



lemma saveTag_wf:
  assumes "tagsWellFormed st" and "tg \<notin> set objectPrototypeNames"
  shows "saveTag st now tg key =
     Inr (setItem (afterRead st now) (toStorageKey tagsStorageKey)
            (toStorageValue now
               (JObj (setProp tg (JArr (keysOf (tagIndex st now) tg @ [JStr key])) (tagIndex st now)))
               defaultOptions))"
proof -
  from read_tags_wf [OF assms(1), of now] obtain r where
    "cache_get st now tagsStorageKey = Inr (afterRead st now, r)"
    "asObject (orEmpty r) = Inr (tagIndex st now)" by blast
  moreover note saveTag_table_wf [OF tagIndex_wf [OF assms(1), of now] assms(2), of key]
  ultimately show ?thesis by (simp add: saveTag_eq cache_set_None)
qed


section \<open>What each call leaves untouched\<close>

lemma cache_get_system_lookup:
  "cache_get st now tagsStorageKey = Inr (afterRead st now, lookup st now tagsStorageKey)"
  by (simp add: cache_get_system afterRead_def lookup_def split: option.splits)

lemma removeFromTag_closed:
  "removeFromTag st now key =
     (case asObject (orEmpty (lookup st now tagsStorageKey)) of
        Inl e \<Rightarrow> Inl e
      | Inr tags \<Rightarrow>
          (case removeFromTag_scan key tags (map fst tags) of
             Inl e \<Rightarrow> Inl e
           | Inr None \<Rightarrow> Inr (afterRead st now)
           | Inr (Some tags') \<Rightarrow>
               Inr (setItem (afterRead st now) (toStorageKey tagsStorageKey)
                      (toStorageValue now (JObj tags') defaultOptions))))"
  by (simp add: removeFromTag_eq cache_get_system_lookup cache_set_None split: sum.splits option.splits)

lemma saveTag_closed:
  "saveTag st now tg key =
     (case asObject (orEmpty (lookup st now tagsStorageKey)) of
        Inl e \<Rightarrow> Inl e
      | Inr tags \<Rightarrow>
          (case saveTag_table tags tg key of
             Inl e \<Rightarrow> Inl e
           | Inr tags' \<Rightarrow>
               Inr (setItem (afterRead st now) (toStorageKey tagsStorageKey)
                      (toStorageValue now (JObj tags') defaultOptions))))"
  by (simp add: saveTag_eq cache_get_system_lookup cache_set_None split: sum.splits option.splits)

lemma removeFromTag_frame:
  assumes "removeFromTag st now key = Inr st'"
  shows "storageType st' = storageType st" and "enabled st' = enabled st"
    and "k \<noteq> toStorageKey tagsStorageKey \<Longrightarrow> getItem st' k = getItem st k"
  using assms
  by (auto simp: removeFromTag_closed backend_setItem backend_afterRead getItem_setItem getItem_afterRead
      split: sum.splits option.splits)

lemma saveTag_frame:
  assumes "saveTag st now tg key = Inr st'"
  shows "storageType st' = storageType st" and "enabled st' = enabled st"
    and "k \<noteq> toStorageKey tagsStorageKey \<Longrightarrow> getItem st' k = getItem st k"
  using assms
  by (auto simp: saveTag_closed backend_setItem backend_afterRead getItem_setItem getItem_afterRead
      split: sum.splits option.splits)

lemma cache_remove_frame:
  assumes "cache_remove st now key = Inr st'"
  shows "storageType st' = storageType st" and "enabled st' = enabled st"
    and "k \<noteq> toStorageKey tagsStorageKey \<Longrightarrow> k \<noteq> toStorageKey key \<Longrightarrow> getItem st' k = getItem st k"
  using assms removeFromTag_frame [of "removeItem st (toStorageKey key)" now "toStorageKey key" st']
  by (simp_all add: cache_remove_eq backend_removeItem getItem_removeItem)

lemma cache_get_frame:
  assumes "cache_get st now key = Inr (st', r)"
  shows "storageType st' = storageType st" and "enabled st' = enabled st"
    and "k \<noteq> toStorageKey tagsStorageKey \<Longrightarrow> k \<noteq> toStorageKey key \<Longrightarrow> getItem st' k = getItem st k"
  using assms cache_remove_frame [of st now key]
  by (auto simp: cache_get_eq split: option.splits if_splits sum.splits)

lemma cache_set_frame:
  assumes "cache_set st now key v opts = Inr st'"
  shows "storageType st' = storageType st" and "enabled st' = enabled st"
    and "k \<noteq> toStorageKey tagsStorageKey \<Longrightarrow> k \<noteq> toStorageKey key \<Longrightarrow> getItem st' k = getItem st k"
  using assms saveTag_frame [of "setItem st (toStorageKey key) (toStorageValue now v (case opts of Some given \<Rightarrow> given | None \<Rightarrow> defaultOptions))" now _ "toStorageKey key" st']
  by (auto simp: cache_set_eq Let_def backend_setItem getItem_setItem split: option.splits if_splits)

lemma getTagData_each_frame:
  "getTagData_each st now keys result = Inr (st', res) \<Longrightarrow>
   storageType st' = storageType st \<and> enabled st' = enabled st"
proof (induction keys arbitrary: st result)
  case Nil
  then show ?case by simp
next
  case (Cons key keys)
  then obtain k where k: "key = JStr k" by (cases key) auto
  with Cons.prems obtain st1 data where
    g: "cache_get st now (fromStorageKey k) = Inr (st1, data)" and
    rest: "getTagData_each st1 now keys
             (if truthy data then setResult (fromStorageKey k) data result else result) = Inr (st', res)"
    by (auto split: sum.splits)
  from Cons.IH [OF rest] cache_get_frame(1,2) [OF g] show ?case by simp
qed

lemma getTagData_frame:
  assumes "getTagData st now tg = Inr (st', res)"
  shows "storageType st' = storageType st \<and> enabled st' = enabled st"
  using assms getTagData_each_frame [of "afterRead st now" now _ "[]" st' res]
  by (auto simp: getTagData_def cache_get_system_lookup backend_afterRead
      split: sum.splits if_splits jsval.splits)

lemma removeTag_each_frame:
  "removeTag_each st keys = Inr st' \<Longrightarrow>
   storageType st' = storageType st \<and> enabled st' = enabled st"
proof (induction keys arbitrary: st)
  case Nil
  then show ?case by simp
next
  case (Cons key keys)
  then obtain k where k: "key = JStr k" by (cases key) auto
  with Cons.prems have "removeTag_each (removeItem st k) keys = Inr st'" by simp
  from Cons.IH [OF this] show ?case by (simp add: backend_removeItem)
qed

lemma removeTag_frame:
  assumes "removeTag st now tg = Inr st'"
  shows "storageType st' = storageType st \<and> enabled st' = enabled st"
  using assms removeTag_each_frame [of "afterRead st now"]
  by (auto simp: removeTag_def cache_get_system_lookup backend_afterRead cache_set_None backend_setItem
      split: sum.splits if_splits jsval.splits)

section \<open>Removal and reading on a well-formed backend\<close>

lemma cache_remove_system:
  "cache_remove st now tagsStorageKey = Inr (removeItem st (toStorageKey tagsStorageKey))"
  unfolding cache_remove_def fuel_eq by (rule remove_fuel_system)

lemma cache_remove_absent:
  assumes "cache_remove st now k = Inr st'"
  shows "getItem st' (toStorageKey k) = None"
proof (cases "k = tagsStorageKey")
  case True
  with assms show ?thesis by (auto simp: cache_remove_system getItem_removeItem)
next
  case False
  then have "toStorageKey k \<noteq> toStorageKey tagsStorageKey" by (simp add: toStorageKey_inj)
  from removeFromTag_frame(3) [OF assms [unfolded cache_remove_eq] this]
  show ?thesis by (simp add: getItem_removeItem)
qed

lemma removeFromTag_total:
  assumes "tagsWellFormed st"
  shows "\<exists>st'. removeFromTag st now key = Inr st' \<and> tagsWellFormed st'"
proof -
  have tbl: "isTagTable (JObj (tagIndex st now))" using assms by (rule tagIndex_wf)
  have sub: "set (map fst (tagIndex st now)) \<subseteq> fst ` set (tagIndex st now)" by simp
  from removeFromTag_scan_wf [OF tbl sub, of key]
  show ?thesis
  proof
    assume "removeFromTag_scan key (tagIndex st now) (map fst (tagIndex st now)) = Inr None"
    then show ?thesis by (simp add: removeFromTag_wf [OF assms] wf_afterRead [OF assms])
  next
    assume "\<exists>tbl'. removeFromTag_scan key (tagIndex st now) (map fst (tagIndex st now)) = Inr (Some tbl')
                \<and> isTagTable (JObj tbl')"
    then obtain tbl' where
      "removeFromTag_scan key (tagIndex st now) (map fst (tagIndex st now)) = Inr (Some tbl')"
      "isTagTable (JObj tbl')" by blast
    then show ?thesis by (simp add: removeFromTag_wf [OF assms] wf_written del: isTagTable.simps)
  qed
qed

lemma cache_remove_total:
  assumes "tagsWellFormed st"
  shows "\<exists>st'. cache_remove st now k = Inr st' \<and> tagsWellFormed st'"
  unfolding cache_remove_eq using assms by (intro removeFromTag_total wf_removeItem)

lemma cache_get_total:
  assumes "tagsWellFormed st"
  shows "\<exists>st'. cache_get st now k = Inr (st', lookup st now k) \<and> tagsWellFormed st'"
proof (cases "getItem st (toStorageKey k)")
  case None
  with assms show ?thesis by (simp add: cache_get_eq lookup_def)
next
  case (Some sv)
  show ?thesis
  proof (cases "validateStorageValue now sv")
    case True
    with Some assms show ?thesis by (simp add: cache_get_eq lookup_def)
  next
    case False
    from cache_remove_total [OF assms, of now k] obtain st' where
      "cache_remove st now k = Inr st'" "tagsWellFormed st'" by blast
    with Some False show ?thesis by (simp add: cache_get_eq lookup_def)
  qed
qed

lemma cache_set_get_default:
  assumes "now' < Number_MAX_VALUE"
  shows "cache_get (setItem st (toStorageKey k) (toStorageValue now v defaultOptions)) now' k
         = Inr (setItem st (toStorageKey k) (toStorageValue now v defaultOptions), v)"
  using assms by (simp add: cache_get_eq getItem_setItem validate_default val_toStorageValue)

lemma memory_items: "getItem CacheMemoryStorage k = None"
  by (simp add: getItem_def CacheMemoryStorage_def)

lemma removeItem_changes: "getItem st k \<noteq> None \<Longrightarrow> removeItem st k \<noteq> st"
  by (auto simp: getItem_removeItem dest: arg_cong [where f = "\<lambda>s. getItem s k"])

lemma wf_memory: "tagsWellFormed CacheMemoryStorage"
  by (simp add: tagsWellFormed_def memory_items)

lemma floorLog2_int:
  assumes "0 < k"
  shows "floorLog2 (of_int k) = bitlen k - 1"
proof -
  from bitlen_bounds [OF assms] have lo: "2 ^ nat (bitlen k - 1) \<le> k" and hi: "k < 2 ^ nat (bitlen k)"
    by simp_all
  have pos: "0 < bitlen k"
  proof (rule ccontr)
    assume "\<not> 0 < bitlen k"
    then have "nat (bitlen k) = 0" by simp
    with hi assms show False by simp
  qed
  have "\<not> (2 :: rat) powi (bitlen k) \<le> of_int k"
  proof -
    from hi have "(of_int k :: rat) < of_int (2 ^ nat (bitlen k))" by (simp only: of_int_less_iff)
    then have "(of_int k :: rat) < 2 ^ nat (bitlen k)" by simp
    with pos show ?thesis by (simp add: power_int_def)
  qed
  moreover have "(2 :: rat) powi (bitlen k - 1) \<le> of_int k"
  proof -
    from lo have "(of_int (2 ^ nat (bitlen k - 1)) :: rat) \<le> of_int k" by (simp only: of_int_le_iff)
    then have "(2 :: rat) ^ nat (bitlen k - 1) \<le> of_int k" by simp
    with pos show ?thesis by (simp add: power_int_def)
  qed
  moreover have "bitlen 1 = 1" by (simp add: bitlen_alt_def)
  ultimately show ?thesis
    by (simp add: floorLog2_def Let_def)
qed

lemma roundDouble_grid:
  assumes x: "x \<noteq> 0" and u: "0 < u" and q: "\<bar>x\<bar> / u = of_int q" and small: "\<bar>x\<bar> < 2 ^ 1024"
    and e: "u = 2 powi (max (floorLog2 \<bar>x\<bar>) (- 1022) - 52)"
  shows "roundDouble x = Finite x"
proof -
  have fl: "\<lfloor>\<bar>x\<bar> / u\<rfloor> = q" by (simp add: q)
  have m: "of_int q * u = \<bar>x\<bar>" using q u by (simp add: field_simps)
  have s: "sgn x * \<bar>x\<bar> = x" by (simp add: sgn_mult_abs)
  show ?thesis
    using x small unfolding roundDouble_def Let_def e [symmetric] fl
    by (simp add: q m s)
qed

lemma roundDouble_exact:
  assumes "\<bar>n\<bar> \<le> 2 ^ 53"
  shows "roundDouble (of_int n) = Finite (of_int n)"
proof (cases "n = 0")
  case True
  then show ?thesis by (simp add: roundDouble_def)
next
  case False
  let ?k = "\<bar>n\<bar>"
  let ?d = "bitlen ?k - 1"
  from False have k: "0 < ?k" by simp
  have abs: "\<bar>of_int n :: rat\<bar> = of_int ?k" by simp
  from bitlen_bounds [OF k] have lo: "2 ^ nat ?d \<le> ?k" by simp
  have d0: "0 \<le> ?d"
  proof (rule ccontr)
    assume "\<not> 0 \<le> ?d"
    then have "nat (bitlen ?k) = 0" by simp
    moreover from bitlen_bounds [OF k] have "?k < 2 ^ nat (bitlen ?k)" by (rule conjunct2)
    ultimately have "?k < 1" by simp
    with k show False by linarith
  qed
  have d53: "?d \<le> 53"
  proof (rule ccontr)
    assume "\<not> ?d \<le> 53"
    then have "54 \<le> nat ?d" by simp
    then have "(2 :: int) ^ 54 \<le> 2 ^ nat ?d" by (rule power_increasing) simp
    with lo assms show False by simp
  qed
  have fl: "floorLog2 \<bar>of_int n :: rat\<bar> = ?d" unfolding abs using k by (rule floorLog2_int)
  have e: "max (floorLog2 \<bar>of_int n :: rat\<bar>) (- 1022) = ?d" using fl d0 by simp
  have small: "\<bar>of_int n :: rat\<bar> < 2 ^ 1024"
  proof -
    from assms have "(of_int ?k :: rat) \<le> of_int (2 ^ 53)" by (simp only: of_int_le_iff)
    then have "(of_int ?k :: rat) \<le> 2 ^ 53" by simp
    also have "(2 :: rat) ^ 53 < 2 ^ 1024" by (rule power_strict_increasing) simp_all
    finally show ?thesis unfolding abs .
  qed
  show ?thesis
  proof (cases "?d \<le> 52")
    case True
    let ?u = "(2 :: rat) powi (?d - 52)"
    have u: "?u = inverse (2 ^ nat (52 - ?d))"
      using True by (cases "?d = 52") (simp_all add: power_int_def inverse_eq_divide power_divide)
    have q: "\<bar>of_int n :: rat\<bar> / ?u = of_int (?k * 2 ^ nat (52 - ?d))"
      unfolding abs u by (simp add: field_simps)
    show ?thesis
      by (rule roundDouble_grid [where u = ?u, OF _ _ q small]) (use False e in simp_all)
  next
    case False
    with d53 have d: "?d = 53" by simp
    with lo assms have keq: "?k = 2 ^ 53" by simp
    let ?u = "(2 :: rat) powi (?d - 52)"
    have u: "?u = 2" unfolding d by simp
    have "(of_int ?k :: rat) = of_int (2 ^ 53)" by (simp only: keq)
    then have k53: "(of_int ?k :: rat) = 2 ^ 53" by simp
    have q: "\<bar>of_int n :: rat\<bar> / ?u = of_int (2 ^ 52)"
      by (simp only: abs u k53) simp
    show ?thesis
      by (rule roundDouble_grid [where u = ?u, OF _ _ q small]) (use \<open>n \<noteq> 0\<close> e in simp_all)
  qed
qed

lemma bitlen_between:
  assumes "2 ^ n \<le> k" and "k < 2 ^ Suc n"
  shows "bitlen k = int n + 1"
proof -
  have "(0 :: int) < 2 ^ n" by simp
  with assms(1) have k: "0 < k" by (rule less_le_trans [rotated])
  from bitlen_bounds [OF k] have lo: "2 ^ nat (bitlen k - 1) \<le> k" and hi: "k < 2 ^ nat (bitlen k)"
    by simp_all
  from assms(1) hi have "(2 :: int) ^ n < 2 ^ nat (bitlen k)" by (rule le_less_trans)
  then have a: "n < nat (bitlen k)" by (rule power_less_imp_less_exp [rotated]) simp
  from lo assms(2) have "(2 :: int) ^ nat (bitlen k - 1) < 2 ^ Suc n" by (rule le_less_trans)
  then have b: "nat (bitlen k - 1) < Suc n" by (rule power_less_imp_less_exp [rotated]) simp
  from a b show ?thesis by linarith
qed

lemma roundDouble_overflow:
  assumes "2 ^ 1024 \<le> k"
  shows "roundDouble (of_int k) = PosInfinity"
proof -
  have "(0 :: int) < 2 ^ 1024" by (rule zero_less_power) simp
  with assms have k: "0 < k" by (rule less_le_trans [rotated])
  let ?e = "bitlen k - 1"
  from bitlen_bounds [OF k] have lo: "2 ^ nat ?e \<le> k" and hi: "k < 2 ^ nat (bitlen k)"
    by simp_all
  from assms hi have "(2 :: int) ^ 1024 < 2 ^ nat (bitlen k)" by (rule le_less_trans)
  then have "1024 < nat (bitlen k)" by (rule power_less_imp_less_exp [rotated]) simp
  then have e: "1024 \<le> ?e" by simp
  have fl: "floorLog2 (of_int k) = ?e" using k by (rule floorLog2_int)
  let ?u = "(2 :: rat) ^ nat (?e - 52)"
  have u: "(2 :: rat) powi (max ?e (- 1022) - 52) = ?u" using e by (simp add: power_int_def)
  have upos: "0 < ?u" by simp
  have split: "(2 :: rat) ^ nat ?e = 2 ^ 52 * ?u"
  proof -
    from e have "nat ?e = 52 + nat (?e - 52)" by simp
    then show ?thesis by (simp only: power_add)
  qed
  from lo have "(of_int (2 ^ nat ?e) :: rat) \<le> of_int k" by (simp only: of_int_le_iff)
  then have big: "(2 :: rat) ^ 52 * ?u \<le> of_int k" by (simp add: split)
  then have "(2 :: rat) ^ 52 \<le> of_int k / ?u" using upos by (simp add: pos_le_divide_eq)
  then have "(of_int (2 ^ 52) :: rat) \<le> of_int k / ?u" by simp
  then have n52: "2 ^ 52 \<le> \<lfloor>(of_int k :: rat) / ?u\<rfloor>" by (simp only: le_floor_iff)
  let ?n = "\<lfloor>(of_int k :: rat) / ?u\<rfloor>"
  have grow: "(2 :: rat) ^ 1024 \<le> of_int n' * ?u" if "?n \<le> n'" for n'
  proof -
    from n52 that have "2 ^ 52 \<le> n'" by (rule order_trans)
    then have "(of_int (2 ^ 52) :: rat) \<le> of_int n'" by (simp only: of_int_le_iff)
    then have "(2 :: rat) ^ 52 \<le> of_int n'" by simp
    then have "(2 :: rat) ^ 52 * ?u \<le> of_int n' * ?u" using upos by (simp add: mult_right_mono)
    then have "(2 :: rat) ^ nat ?e \<le> of_int n' * ?u" by (simp only: split)
    moreover have "(2 :: rat) ^ 1024 \<le> 2 ^ nat ?e" using e by (intro power_increasing) simp_all
    ultimately show ?thesis by simp
  qed
  from grow [of ?n] grow [of "?n + 1"]
  have "(2 :: rat) ^ 1024 \<le> of_int ?n * ?u" "(2 :: rat) ^ 1024 \<le> of_int (?n + 1) * ?u" by simp_all
  with k show ?thesis
    unfolding roundDouble_def Let_def by (simp add: fl u)
qed

lemma roundDouble_rounds:
  "roundDouble (9007199254740992000 + 1000) = Finite 9007199254740993024"
proof -
  have b: "bitlen 9007199254740993000 = 63"
    using bitlen_between [of 62 9007199254740993000] by simp
  have fl: "floorLog2 9007199254740993000 = 62"
    using floorLog2_int [of 9007199254740993000] b by simp
  have f: "\<lfloor>(1125899906842624125 :: rat) / 128\<rfloor> = 8796093022208000"
    by (rule floor_unique) simp_all
  show ?thesis
    unfolding roundDouble_def Let_def by (simp add: fl f)
qed

lemma maxAge_rounds: "plusNow 1000 (times1000 (Finite (2 ^ 53))) = Finite 9007199254740993024"
proof -
  have b: "bitlen 9007199254740992000 = 63"
    using bitlen_between [of 62 9007199254740992000] by simp
  have fl: "floorLog2 9007199254740992000 = 62"
    using floorLog2_int [of 9007199254740992000] b by simp
  have "roundDouble 9007199254740992000 = Finite 9007199254740992000"
    by (rule roundDouble_grid [where u = 1024 and q = 8796093022208000]) (simp_all add: fl)
  then have "times1000 (Finite (2 ^ 53)) = Finite 9007199254740992000" by simp
  then show ?thesis using roundDouble_rounds by simp
qed

lemma maxAge_overflows: "plusNow now (times1000 (Finite (of_int Number_MAX_VALUE))) = PosInfinity"
proof -
  have "(2 :: int) ^ 1024 \<le> Number_MAX_VALUE * 1000" by (simp add: Number_MAX_VALUE_def)
  then have "roundDouble (of_int (Number_MAX_VALUE * 1000)) = PosInfinity" by (rule roundDouble_overflow)
  then show ?thesis by simp
qed

lemma maxAge_exact:
  assumes "m * 1000 = of_int j" and "\<bar>j\<bar> \<le> 2 ^ 53" and "\<bar>now + j\<bar> \<le> 2 ^ 53"
  shows "plusNow now (times1000 (Finite m)) = Finite (of_int (now + j))"
proof -
  have "times1000 (Finite m) = roundDouble (of_int j)" by (simp add: assms(1))
  also have "\<dots> = Finite (of_int j)" using assms(2) by (rule roundDouble_exact)
  finally have "plusNow now (times1000 (Finite m)) = roundDouble (of_int (now + j))"
    by simp
  also have "\<dots> = Finite (of_int (now + j))" using assms(3) by (rule roundDouble_exact)
  finally show ?thesis .
qed

lemma maxAge_one:
  assumes "0 \<le> t0" and "t0 \<le> 8640000000000000"
  shows "toStorageValue t0 v \<lparr>expires = None, maxAge = Some (Finite 1), tag = tg\<rparr>
   = \<lparr>val = v, options = \<lparr>expires = Some (Finite (of_int (t0 + 1000))), maxAge = Some (Finite 1), tag = None\<rparr>\<rparr>"
proof -
  from assms have "(1 :: rat) * 1000 = of_int 1000" and "\<bar>1000 :: int\<bar> \<le> 2 ^ 53"
    and "\<bar>t0 + 1000\<bar> \<le> 2 ^ 53" by simp_all
  then have "plusNow t0 (times1000 (Finite 1)) = Finite (of_int (t0 + 1000))"
    by (rule maxAge_exact)
  then show ?thesis by (simp add: toStorageValue_def toStorageOptions_def)
qed

lemma maxAge_one_expired:
  "0 \<le> t0 \<Longrightarrow> t0 \<le> 8640000000000000 \<Longrightarrow>
   \<not> validateStorageValue (t0 + 2000)
        (toStorageValue t0 v \<lparr>expires = None, maxAge = Some (Finite 1), tag = tg\<rparr>)"
  by (simp add: maxAge_one validateStorageValue_def)

lemma cache_set_untagged:
  "tag opts = None \<Longrightarrow>
   cache_set st now k v (Some opts) = Inr (setItem st (toStorageKey k) (toStorageValue now v opts))"
  by (simp add: cache_set_eq)

lemma cache_exists_absent:
  "getItem st (toStorageKey k) = None \<Longrightarrow> cache_exists st now k = Inr (st, False)"
  by (simp add: cache_exists_def cache_get_eq)

lemma expire_scenario:
  assumes wf: "tagsWellFormed st0" and t0: "0 \<le> t0" "t0 \<le> 8640000000000000"
  shows "\<exists>st1 st2. cache_set st0 t0 k v (Some \<lparr>expires = None, maxAge = Some (Finite 1), tag = None\<rparr>) = Inr st1
           \<and> cache_get st1 (t0 + 2000) k = Inr (st2, JNull)
           \<and> cache_exists st2 t2 k = Inr (st2, False)"
proof -
  let ?sv = "toStorageValue t0 v \<lparr>expires = None, maxAge = Some (Finite 1), tag = None\<rparr>"
  let ?st1 = "setItem st0 (toStorageKey k) ?sv"
  have set1: "cache_set st0 t0 k v (Some \<lparr>expires = None, maxAge = Some (Finite 1), tag = None\<rparr>) = Inr ?st1"
    by (simp add: cache_set_untagged)
  have entry: "getItem ?st1 (toStorageKey k) = Some ?sv" by (simp add: getItem_setItem)
  have get1: "cache_get ?st1 (t0 + 2000) k =
      (case cache_remove ?st1 (t0 + 2000) k of Inl e \<Rightarrow> Inl e | Inr st' \<Rightarrow> Inr (st', JNull))"
    by (simp add: cache_get_eq entry maxAge_one_expired [OF t0])
  have "\<exists>st2. cache_remove ?st1 (t0 + 2000) k = Inr st2"
  proof (cases "k = tagsStorageKey")
    case True
    then show ?thesis by (simp add: cache_remove_system)
  next
    case False
    then have "tagsWellFormed ?st1" using wf by (simp add: wf_setItem_other toStorageKey_inj)
    from cache_remove_total [OF this] show ?thesis by blast
  qed
  then obtain st2 where rm: "cache_remove ?st1 (t0 + 2000) k = Inr st2" by blast
  have "getItem st2 (toStorageKey k) = None" using rm by (rule cache_remove_absent)
  then have "cache_exists st2 t2 k = Inr (st2, False)" by (rule cache_exists_absent)
  with set1 get1 rm show ?thesis by simp
qed

lemma cache_exists_frame:
  assumes "cache_exists st now k = Inr (st', b)"
  shows "storageType st' = storageType st \<and> enabled st' = enabled st"
  using assms cache_get_frame(1,2) [of st now k st']
  by (auto simp: cache_exists_def split: sum.splits)

lemma backend_clear: "storageType (clear st) = storageType st \<and> enabled (clear st) = enabled st"
  by (simp add: clear_def)

section \<open>What set stores\<close>

lemma cache_set_system:
  "cache_set st now tagsStorageKey v opts =
     Inr (setItem st (toStorageKey tagsStorageKey)
            (toStorageValue now v (case opts of Some given \<Rightarrow> given | None \<Rightarrow> defaultOptions)))"
  unfolding cache_set_def fuel_eq by (rule set_fuel_system)


lemma cache_set_tagged:
  assumes "tag opts = Some t" "t \<noteq> []" "k \<noteq> tagsStorageKey"
  shows "cache_set st now k v (Some opts) =
           saveTag (setItem st (toStorageKey k) (toStorageValue now v opts)) now t (toStorageKey k)"
  using assms by (simp add: cache_set_eq isSystemKey_iff Let_def)

lemma cache_set_tagged_wf:
  assumes wf: "tagsWellFormed st" and t: "tag opts = Some t" "t \<noteq> []" and k: "k \<noteq> tagsStorageKey"
    and own: "t \<notin> set objectPrototypeNames"
  shows "cache_set st now k v (Some opts) =
     Inr (setItem (afterRead (setItem st (toStorageKey k) (toStorageValue now v opts)) now)
            (toStorageKey tagsStorageKey)
            (toStorageValue now
               (JObj (setProp t (JArr (keysOf (tagIndex st now) t @ [JStr (toStorageKey k)])) (tagIndex st now)))
               defaultOptions))"
proof -
  let ?st1 = "setItem st (toStorageKey k) (toStorageValue now v opts)"
  from k have ne: "toStorageKey k \<noteq> toStorageKey tagsStorageKey" by (simp add: toStorageKey_inj)
  then have wf1: "tagsWellFormed ?st1" using wf by (simp add: wf_setItem_other)
  from ne have idx: "tagIndex ?st1 now = tagIndex st now" by (rule tagIndex_setItem_other)
  show ?thesis
    unfolding cache_set_tagged [OF t k] saveTag_wf [OF wf1 own] idx ..
qed


lemma cache_set_entry:
  assumes "cache_set st now k v opts = Inr st'"
  shows "getItem st' (toStorageKey k) =
           Some (toStorageValue now v (case opts of Some given \<Rightarrow> given | None \<Rightarrow> defaultOptions))"
proof (cases "k = tagsStorageKey")
  case True
  with assms show ?thesis by (auto simp: cache_set_system getItem_setItem)
next
  case False
  then have ne: "toStorageKey k \<noteq> toStorageKey tagsStorageKey" by (simp add: toStorageKey_inj)
  let ?o = "case opts of Some given \<Rightarrow> given | None \<Rightarrow> defaultOptions"
  let ?st1 = "setItem st (toStorageKey k) (toStorageValue now v ?o)"
  from assms have "st' = ?st1 \<or> (\<exists>t. saveTag ?st1 now t (toStorageKey k) = Inr st')"
    by (auto simp: cache_set_eq Let_def split: if_splits option.splits)
  then show ?thesis
  proof
    assume "st' = ?st1"
    then show ?thesis by (simp add: getItem_setItem)
  next
    assume "\<exists>t. saveTag ?st1 now t (toStorageKey k) = Inr st'"
    then obtain t where "saveTag ?st1 now t (toStorageKey k) = Inr st'" by blast
    from saveTag_frame(3) [OF this ne] show ?thesis by (simp add: getItem_setItem)
  qed
qed

lemma cache_set_returns:
  assumes wf: "tagsWellFormed st"
    and own: "\<forall>given t. opts = Some given \<and> tag given = Some t \<longrightarrow> t \<notin> set objectPrototypeNames"
  shows "\<exists>st'. cache_set st now k v opts = Inr st'"
proof (cases "k = tagsStorageKey")
  case True
  then show ?thesis by (simp add: cache_set_system)
next
  case False
  let ?o = "case opts of Some given \<Rightarrow> given | None \<Rightarrow> defaultOptions"
  show ?thesis
  proof (cases "truthyStr (tag ?o)")
    case False
    then show ?thesis by (simp add: cache_set_eq Let_def)
  next
    case True
    then obtain t where t: "tag ?o = Some t" "t \<noteq> []" by (cases "tag ?o") auto
    have opts: "opts = Some ?o"
    proof (cases opts)
      case None
      with t show ?thesis by (simp add: defaultOptions_def)
    next
      case (Some a)
      then show ?thesis by simp
    qed
    with own t(1) have "t \<notin> set objectPrototypeNames" by blast
    from cache_set_tagged_wf [OF wf t \<open>k \<noteq> tagsStorageKey\<close> this, of now v] opts show ?thesis
      by (metis)
  qed
qed

lemma cache_set_no_tag:
  assumes "\<not> truthyStr (tag (case opts of Some given \<Rightarrow> given | None \<Rightarrow> defaultOptions))"
  shows "cache_set st now k v opts =
     Inr (setItem st (toStorageKey k)
            (toStorageValue now v (case opts of Some given \<Rightarrow> given | None \<Rightarrow> defaultOptions)))"
  using assms by (simp add: cache_set_eq Let_def)

lemma expires_toStorageValue:
  "expires (options (toStorageValue now v opts)) =
     (if truthyNum (expires opts) then expires opts
      else if truthyNum (maxAge opts) then map_option (\<lambda>m. plusNow now (times1000 m)) (maxAge opts)
      else Some (Finite (of_int Number_MAX_VALUE)))"
  by (simp add: toStorageValue_def toStorageOptions_def defaultOptions_def)

lemma getProp_update: "getProp (AList.update t v tbl) t' = (if t' = t then v else getProp tbl t')"
  by (simp add: getProp_def update_conv')

lemma keysOf_update: "keysOf (AList.update t (JArr xs) tbl) t = xs"
  by (simp add: keysOf_def getProp_update)




lemma tagIndex_memory: "tagIndex CacheMemoryStorage now = []"
  by (simp add: tagIndex_def memory_items)

section \<open>The scan of the tag table\<close>

lemma update_middle:
  "t \<notin> fst ` set pre \<Longrightarrow> AList.update t v (pre @ (t, w) # post) = pre @ (t, v) # post"
  by (induction pre) auto

lemma getProp_keysOf:
  "isTagTable (JObj tbl) \<Longrightarrow> t \<in> fst ` set tbl \<Longrightarrow> getProp tbl t = JArr (keysOf tbl t)"
  using isKeyList_getProp [of tbl t] by (auto simp: keysOf_def)

lemma scan_first_match:
  assumes wf: "isTagTable (JObj tbl)"
    and tbl: "tbl = pre @ (t, JArr xs) # post"
    and pre: "\<forall>t'\<in>fst ` set pre. JStr key \<notin> set (keysOf tbl t')"
    and hit: "JStr key \<in> set xs"
  shows "removeFromTag_scan key tbl (map fst tbl) =
           Inr (Some (pre @ (t, JArr (remove1 (JStr key) xs)) # post))"
proof -
  from wf tbl have dist: "distinct (map fst (pre @ (t, JArr xs) # post))" by simp
  then have fresh: "t \<notin> fst ` set pre" by auto
  have at: "getProp tbl t = JArr xs"
    using wf tbl by (intro getProp_distinct) simp_all
  have skip: "\<forall>t'\<in>set (map fst pre). \<exists>ys. getProp tbl t' = JArr ys \<and> JStr key \<notin> set ys"
  proof
    fix t' assume "t' \<in> set (map fst pre)"
    then have mem: "t' \<in> fst ` set pre" by simp
    with tbl have "t' \<in> fst ` set tbl" by auto
    from getProp_keysOf [OF wf this] pre mem
    show "\<exists>ys. getProp tbl t' = JArr ys \<and> JStr key \<notin> set ys" by blast
  qed
  have "removeFromTag_scan key tbl (map fst tbl) =
        removeFromTag_scan key tbl (map fst pre @ t # map fst post)"
    by (simp add: tbl)
  also have "\<dots> = removeFromTag_scan key tbl (t # map fst post)"
    using skip by (rule removeFromTag_scan_skip)
  also have "\<dots> = Inr (Some (AList.update t (JArr (remove1 (JStr key) xs)) tbl))"
    using at hit by (rule removeFromTag_scan_hit)
  also have "AList.update t (JArr (remove1 (JStr key) xs)) tbl = pre @ (t, JArr (remove1 (JStr key) xs)) # post"
    unfolding tbl using fresh by (rule update_middle)
  finally show ?thesis .
qed

lemma scan_no_match:
  assumes wf: "isTagTable (JObj tbl)"
    and none: "\<forall>t'\<in>fst ` set tbl. JStr key \<notin> set (keysOf tbl t')"
  shows "removeFromTag_scan key tbl (map fst tbl) = Inr None"
proof -
  have skip: "\<forall>t'\<in>set (map fst tbl). \<exists>ys. getProp tbl t' = JArr ys \<and> JStr key \<notin> set ys"
  proof
    fix t' assume "t' \<in> set (map fst tbl)"
    then have mem: "t' \<in> fst ` set tbl" by simp
    from getProp_keysOf [OF wf this] none mem
    show "\<exists>ys. getProp tbl t' = JArr ys \<and> JStr key \<notin> set ys" by blast
  qed
  from removeFromTag_scan_skip [OF skip, of "[]"] show ?thesis by simp
qed

lemma cache_remove_first_match:
  assumes wf: "tagsWellFormed st" and now': "now' < Number_MAX_VALUE"
    and tbl: "tagIndex (removeItem st (toStorageKey k)) now = pre @ (t, JArr xs) # post"
    and pre: "\<forall>t'\<in>fst ` set pre. JStr (toStorageKey k) \<notin> set (keysOf (pre @ (t, JArr xs) # post) t')"
    and hit: "JStr (toStorageKey k) \<in> set xs"
  shows "\<exists>st1. cache_remove st now k = Inr st1 \<and> getItem st1 (toStorageKey k) = None
           \<and> tagIndex st1 now' = pre @ (t, JArr (remove1 (JStr (toStorageKey k)) xs)) # post"
proof -
  let ?st0 = "removeItem st (toStorageKey k)"
  let ?key = "toStorageKey k"
  let ?tbl' = "pre @ (t, JArr (remove1 (JStr ?key) xs)) # post"
  let ?st1 = "setItem (afterRead ?st0 now) (toStorageKey tagsStorageKey) (toStorageValue now (JObj ?tbl') defaultOptions)"
  from wf have wf0: "tagsWellFormed ?st0" by (rule wf_removeItem)
  have tblwf: "isTagTable (JObj (tagIndex ?st0 now))" using wf0 by (rule tagIndex_wf)
  from pre have pre': "\<forall>t'\<in>fst ` set pre. JStr ?key \<notin> set (keysOf (tagIndex ?st0 now) t')"
    by (simp add: tbl)
  have "removeFromTag_scan ?key (tagIndex ?st0 now) (map fst (tagIndex ?st0 now)) = Inr (Some ?tbl')"
    using tblwf tbl pre' hit by (rule scan_first_match)
  then have rm: "cache_remove st now k = Inr ?st1"
    by (simp add: cache_remove_eq removeFromTag_wf [OF wf0])
  have gone: "getItem ?st1 ?key = None" using rm by (rule cache_remove_absent)
  from now' have "tagIndex ?st1 now' = ?tbl'" by (rule tagIndex_written)
  with rm gone show ?thesis by (intro exI [of _ ?st1] conjI)
qed

lemma cache_remove_no_match:
  assumes wf: "tagsWellFormed st"
    and none: "\<forall>t'\<in>fst ` set (tagIndex (removeItem st (toStorageKey k)) now).
                 JStr (toStorageKey k) \<notin> set (keysOf (tagIndex (removeItem st (toStorageKey k)) now) t')"
  shows "\<exists>st1. cache_remove st now k = Inr st1 \<and> getItem st1 (toStorageKey k) = None
           \<and> tagIndex st1 now = tagIndex (removeItem st (toStorageKey k)) now"
proof -
  let ?st0 = "removeItem st (toStorageKey k)"
  let ?key = "toStorageKey k"
  from wf have wf0: "tagsWellFormed ?st0" by (rule wf_removeItem)
  have tblwf: "isTagTable (JObj (tagIndex ?st0 now))" using wf0 by (rule tagIndex_wf)
  have "removeFromTag_scan ?key (tagIndex ?st0 now) (map fst (tagIndex ?st0 now)) = Inr None"
    using tblwf none by (rule scan_no_match)
  then have rm: "cache_remove st now k = Inr (afterRead ?st0 now)"
    by (simp add: cache_remove_eq removeFromTag_wf [OF wf0])
  have gone: "getItem (afterRead ?st0 now) ?key = None" using rm by (rule cache_remove_absent)
  from rm gone show ?thesis by (simp add: tagIndex_afterRead)
qed

lemma cache_get_invalid:
  assumes "getItem st (toStorageKey k) = Some sv" and "\<not> validateStorageValue now sv"
  shows "cache_get st now k =
      (case cache_remove st now k of Inl err \<Rightarrow> Inl err | Inr st' \<Rightarrow> Inr (st', JNull))"
  using assms by (simp add: cache_get_eq)

section \<open>Whole tags\<close>

lemma isKeyList_strings: "isKeyList (JArr xs) \<Longrightarrow> \<exists>ks. xs = map JStr ks"
proof (induction xs)
  case Nil
  then show ?case by simp
next
  case (Cons x xs)
  then obtain ks where "xs = map JStr ks" by auto
  moreover from Cons.prems obtain k where "x = JStr k" by (cases x) auto
  ultimately have "x # xs = map JStr (k # ks)" by simp
  then show ?case by (rule exI)
qed

lemma removeTag_each_strings: "removeTag_each st (map JStr ks) = Inr (foldl removeItem st ks)"
  by (induction ks arbitrary: st) auto

lemma getItem_foldl_removeItem:
  "getItem (foldl removeItem st ks) k = (if k \<in> set ks then None else getItem st k)"
  by (induction ks arbitrary: st) (auto simp: getItem_removeItem)

lemma tagIndex_foldl_removeItem:
  "toStorageKey tagsStorageKey \<notin> set ks \<Longrightarrow> tagIndex (foldl removeItem st ks) now = tagIndex st now"
  by (simp add: tagIndex_def getItem_foldl_removeItem)

lemma afterRead_valid:
  "(\<forall>sv. getItem st (toStorageKey tagsStorageKey) = Some sv \<longrightarrow> validateStorageValue now sv)
   \<Longrightarrow> afterRead st now = st"
  by (auto simp: afterRead_def split: option.splits)

lemma afterRead_written:
  "now' < Number_MAX_VALUE \<Longrightarrow>
   afterRead (setItem st (toStorageKey tagsStorageKey) (toStorageValue now v defaultOptions)) now'
   = setItem st (toStorageKey tagsStorageKey) (toStorageValue now v defaultOptions)"
  by (rule afterRead_valid) (simp add: getItem_setItem validate_default)

lemma getProp_delete:
  "getProp (AList.delete t tbl) t' =
     (if t' = t then (if t \<in> set objectPrototypeNames then JNative else JUndefined) else getProp tbl t')"
  by (simp add: getProp_def delete_conv')

lemma names_delete: "t \<notin> fst ` set (AList.delete t tbl)"
  by (induction tbl) auto

lemma removeTag_absent:
  assumes wf: "tagsWellFormed st" and t: "t \<notin> fst ` set (tagIndex st now)"
    and own: "t \<notin> set objectPrototypeNames"
  shows "removeTag st now t = Inr (afterRead st now)"
proof -
  from read_tags_wf [OF wf, of now] obtain r where
    "cache_get st now tagsStorageKey = Inr (afterRead st now, r)"
    "asObject (orEmpty r) = Inr (tagIndex st now)" by blast
  moreover from t own have "getProp (tagIndex st now) t = JUndefined" by (rule getProp_absent)
  ultimately show ?thesis by (simp add: removeTag_def)
qed

lemma removeTag_inherited:
  assumes wf: "tagsWellFormed st" and t: "t \<notin> fst ` set (tagIndex st now)"
    and inh: "t \<in> set objectPrototypeNames"
  shows "removeTag st now t = Inl TypeError"
proof -
  from read_tags_wf [OF wf, of now] obtain r where
    "cache_get st now tagsStorageKey = Inr (afterRead st now, r)"
    "asObject (orEmpty r) = Inr (tagIndex st now)" by blast
  moreover from t inh have "getProp (tagIndex st now) t = JNative" by (rule getProp_inherited)
  ultimately show ?thesis by (simp add: removeTag_def)
qed

lemma getTagData_absent:
  assumes wf: "tagsWellFormed st" and t: "t \<notin> fst ` set (tagIndex st now)"
    and own: "t \<notin> set objectPrototypeNames"
  shows "getTagData st now t = Inr (afterRead st now, [])"
proof -
  from read_tags_wf [OF wf, of now] obtain r where
    "cache_get st now tagsStorageKey = Inr (afterRead st now, r)"
    "asObject (orEmpty r) = Inr (tagIndex st now)" by blast
  moreover from t own have "getProp (tagIndex st now) t = JUndefined" by (rule getProp_absent)
  ultimately show ?thesis by (simp add: getTagData_def)
qed

lemma getTagData_inherited:
  assumes wf: "tagsWellFormed st" and t: "t \<notin> fst ` set (tagIndex st now)"
    and inh: "t \<in> set objectPrototypeNames"
  shows "getTagData st now t = Inl TypeError"
proof -
  from read_tags_wf [OF wf, of now] obtain r where
    "cache_get st now tagsStorageKey = Inr (afterRead st now, r)"
    "asObject (orEmpty r) = Inr (tagIndex st now)" by blast
  moreover from t inh have "getProp (tagIndex st now) t = JNative" by (rule getProp_inherited)
  ultimately show ?thesis by (simp add: getTagData_def)
qed

lemma removeTag_listed:
  assumes wf: "tagsWellFormed st" and t: "t \<in> fst ` set (tagIndex st now)"
    and ks: "keysOf (tagIndex st now) t = map JStr ks"
  shows "removeTag st now t =
     Inr (setItem (foldl removeItem (afterRead st now) ks) (toStorageKey tagsStorageKey)
            (toStorageValue now (JObj (AList.delete t (tagIndex st now))) defaultOptions))"
proof -
  from read_tags_wf [OF wf, of now] obtain r where
    "cache_get st now tagsStorageKey = Inr (afterRead st now, r)"
    "asObject (orEmpty r) = Inr (tagIndex st now)" by blast
  moreover have "getProp (tagIndex st now) t = JArr (map JStr ks)"
    using getProp_keysOf [OF tagIndex_wf [OF wf] t] ks by simp
  ultimately show ?thesis
    by (simp add: removeTag_def removeTag_each_strings cache_set_None)
qed

lemma lookup_afterRead:
  "k \<noteq> tagsStorageKey \<Longrightarrow> lookup (afterRead st now) now' k = lookup st now' k"
  by (simp add: lookup_def getItem_afterRead toStorageKey_inj)

lemma cache_get_lookup_wf:
  assumes wf: "tagsWellFormed st"
  shows "\<exists>st'. cache_get st now k = Inr (st', lookup st now k) \<and> tagsWellFormed st'
           \<and> (\<forall>k'. k' \<noteq> tagsStorageKey \<longrightarrow> lookup st' now k' = lookup st now k')"
proof -
  from cache_get_total [OF wf, of now k] obtain st' where
    g: "cache_get st now k = Inr (st', lookup st now k)" and wf': "tagsWellFormed st'" by blast
  have "\<forall>k'. k' \<noteq> tagsStorageKey \<longrightarrow> lookup st' now k' = lookup st now k'"
  proof (intro allI impI)
    fix k' assume k': "k' \<noteq> tagsStorageKey"
    then have ne: "toStorageKey k' \<noteq> toStorageKey tagsStorageKey" by (simp add: toStorageKey_inj)
    show "lookup st' now k' = lookup st now k'"
    proof (cases "st' = st")
      case True
      then show ?thesis by simp
    next
      case False
      with g obtain sv where sv: "getItem st (toStorageKey k) = Some sv" "\<not> validateStorageValue now sv"
        and rm: "cache_remove st now k = Inr st'"
        by (auto simp: cache_get_eq split: option.splits if_splits sum.splits)
      show ?thesis
      proof (cases "k' = k")
        case True
        from rm have "getItem st' (toStorageKey k) = None" by (rule cache_remove_absent)
        with sv True show ?thesis by (simp add: lookup_def)
      next
        case False
        then have "toStorageKey k' \<noteq> toStorageKey k" by (simp add: toStorageKey_inj)
        from cache_remove_frame(3) [OF rm ne this] show ?thesis by (simp add: lookup_def)
      qed
    qed
  qed
  with g wf' show ?thesis by blast
qed

lemma map_of_setResult:
  "map_of (setResult name d acc) k' =
     (if k' = name \<and> name \<noteq> ''__proto__'' then Some d else map_of acc k')"
  by (simp add: setResult_def map_of_setProp)

lemma getTagData_each_wf:
  assumes "tagsWellFormed st"
    and "\<forall>key\<in>set ks. fromStorageKey key \<noteq> tagsStorageKey"
    and "\<forall>k'. k' \<noteq> tagsStorageKey \<longrightarrow> lookup st now k' = L k'"
  shows "\<exists>st' res. getTagData_each st now (map JStr ks) acc = Inr (st', res)
           \<and> (\<forall>k'. map_of res k' =
                 (if k' \<in> fromStorageKey ` set ks \<and> k' \<noteq> ''__proto__'' \<and> truthy (L k') then Some (L k') else map_of acc k'))"
  using assms
proof (induction ks arbitrary: st acc)
  case Nil
  then show ?case by simp
next
  case (Cons key ks)
  let ?k = "fromStorageKey key"
  from Cons.prems(2) have k: "?k \<noteq> tagsStorageKey" by simp
  from cache_get_lookup_wf [OF Cons.prems(1), of now ?k] obtain st1 where
    g: "cache_get st now ?k = Inr (st1, lookup st now ?k)" and wf1: "tagsWellFormed st1"
    and same: "\<forall>k'. k' \<noteq> tagsStorageKey \<longrightarrow> lookup st1 now k' = lookup st now k'" by blast
  from Cons.prems(3) k have d: "lookup st now ?k = L ?k" by simp
  let ?acc = "if truthy (L ?k) then setResult ?k (L ?k) acc else acc"
  from Cons.prems(2) have rest: "\<forall>key\<in>set ks. fromStorageKey key \<noteq> tagsStorageKey" by simp
  from same Cons.prems(3) have L1: "\<forall>k'. k' \<noteq> tagsStorageKey \<longrightarrow> lookup st1 now k' = L k'" by simp
  from Cons.IH [OF wf1 rest L1, of ?acc] obtain st' res where
    e: "getTagData_each st1 now (map JStr ks) ?acc = Inr (st', res)"
    and m: "\<forall>k'. map_of res k' =
                 (if k' \<in> fromStorageKey ` set ks \<and> k' \<noteq> ''__proto__'' \<and> truthy (L k') then Some (L k') else map_of ?acc k')"
    by blast
  have step: "getTagData_each st now (map JStr (key # ks)) acc = Inr (st', res)"
    using g e by (simp add: d)
  have "\<forall>k'. map_of res k' =
      (if k' \<in> fromStorageKey ` set (key # ks) \<and> k' \<noteq> ''__proto__'' \<and> truthy (L k')
       then Some (L k') else map_of acc k')"
    using m by (auto simp: map_of_setResult)
  with step show ?case by blast
qed

lemma getTagData_listed:
  assumes wf: "tagsWellFormed st" and t: "t \<in> fst ` set (tagIndex st now)"
    and ks: "keysOf (tagIndex st now) t = map JStr ks"
    and sys: "\<forall>key\<in>set ks. fromStorageKey key \<noteq> tagsStorageKey"
  shows "\<exists>st' res. getTagData st now t = Inr (st', res)
           \<and> (\<forall>k'. map_of res k' =
                 (if k' \<in> fromStorageKey ` set ks \<and> k' \<noteq> ''__proto__'' \<and> truthy (lookup st now k')
                  then Some (lookup st now k') else None))"
proof -
  from read_tags_wf [OF wf, of now] obtain r where
    r: "cache_get st now tagsStorageKey = Inr (afterRead st now, r)"
    "asObject (orEmpty r) = Inr (tagIndex st now)" by blast
  have p: "getProp (tagIndex st now) t = JArr (map JStr ks)"
    using getProp_keysOf [OF tagIndex_wf [OF wf] t] ks by simp
  have L: "\<forall>k'. k' \<noteq> tagsStorageKey \<longrightarrow> lookup (afterRead st now) now k' = lookup st now k'"
    by (simp add: lookup_afterRead)
  from getTagData_each_wf [OF wf_afterRead [OF wf] sys L, of "[]"] obtain st' res where
    "getTagData_each (afterRead st now) now (map JStr ks) [] = Inr (st', res)"
    "\<forall>k'. map_of res k' =
                 (if k' \<in> fromStorageKey ` set ks \<and> k' \<noteq> ''__proto__'' \<and> truthy (lookup st now k')
                  then Some (lookup st now k') else map_of [] k')"
    by blast
  with r p show ?thesis by (simp add: getTagData_def)
qed

lemma distinct_setResult: "distinct (map fst acc) \<Longrightarrow> distinct (map fst (setResult name d acc))"
  by (simp add: setResult_def distinct_setProp)

lemma getTagData_each_distinct:
  "getTagData_each st now keys acc = Inr (st', res) \<Longrightarrow> distinct (map fst acc)
   \<Longrightarrow> distinct (map fst res)"
proof (induction keys arbitrary: st acc)
  case Nil
  then show ?case by simp
next
  case (Cons key keys)
  from Cons.prems(1) obtain k st1 d where
    "getTagData_each st1 now keys (if truthy d then setResult (fromStorageKey k) d acc else acc) = Inr (st', res)"
    by (auto split: jsval.splits sum.splits)
  moreover from Cons.prems(2)
  have "distinct (map fst (if truthy d then setResult (fromStorageKey k) d acc else acc))"
    by (simp add: distinct_setResult)
  ultimately show ?case by (rule Cons.IH)
qed

lemma getTagData_distinct:
  assumes "getTagData st now t = Inr (st', res)"
  shows "distinct (map fst res)"
proof -
  from assms have "res = [] \<or> (\<exists>st1 keys. getTagData_each st1 now keys [] = Inr (st', res))"
    by (auto simp: getTagData_def split: sum.splits jsval.splits if_splits)
  then show ?thesis
  proof
    assume "res = []"
    then show ?thesis by simp
  next
    assume "\<exists>st1 keys. getTagData_each st1 now keys [] = Inr (st', res)"
    then obtain st1 keys where "getTagData_each st1 now keys [] = Inr (st', res)" by blast
    from getTagData_each_distinct [OF this] show ?thesis by simp
  qed
qed

lemma afterRead_no_table:
  "getItem st (toStorageKey tagsStorageKey) = None \<Longrightarrow> afterRead st now = st"
  by (simp add: afterRead_def)

lemma storage_keys:
  "toStorageKey ''a'' = ''CacheServicea''" "toStorageKey ''b'' = ''CacheServiceb''"
  "fromStorageKey ''CacheServicea'' = ''a''" "fromStorageKey ''CacheServiceb'' = ''b''"
  "toStorageKey ''a'' \<noteq> toStorageKey tagsStorageKey" "toStorageKey ''b'' \<noteq> toStorageKey tagsStorageKey"
  "''a'' \<noteq> tagsStorageKey" "''b'' \<noteq> tagsStorageKey"
  by (simp_all add: toStorageKey_def fromStorageKey_def CACHE_PREFIX_def tagsStorageKey_def)

lemma untimed_entry:
  "toStorageValue now v \<lparr>expires = None, maxAge = None, tag = tg\<rparr> = \<lparr>val = v, options = defaultOptions\<rparr>"
  by (simp add: toStorageValue_def toStorageOptions_def defaultOptions_def)

lemma validate_untimed:
  "validateStorageValue now \<lparr>val = v, options = defaultOptions\<rparr> = (now < Number_MAX_VALUE)"
  by (simp add: validateStorageValue_def defaultOptions_def)

lemma scenario_tag:
  "''g'' \<notin> set objectPrototypeNames" "arrayIndex ''g'' = None"
  by (simp_all add: objectPrototypeNames_def arrayIndex_def digitOf_def)

lemma scenario_names:
  "arrayIndex ''a'' = None" "arrayIndex ''b'' = None"
  by (simp_all add: arrayIndex_def digitOf_def)

lemma tag_grouping_scenario:
  assumes t2: "t2 < Number_MAX_VALUE" and t3: "t3 < Number_MAX_VALUE"
  shows "\<exists>st1 st2.
           cache_set CacheMemoryStorage t1 ''a'' (JNum (Finite 1)) (Some \<lparr>expires = None, maxAge = None, tag = Some ''g''\<rparr>) = Inr st1
         \<and> cache_set st1 t2 ''b'' (JNum (Finite 2)) (Some \<lparr>expires = None, maxAge = None, tag = Some ''g''\<rparr>) = Inr st2
         \<and> getTagData st2 t3 ''g'' = Inr (st2, [(''a'', JNum (Finite 1)), (''b'', JNum (Finite 2))])"
proof -
  let ?o = "\<lparr>expires = None, maxAge = None, tag = Some ''g''\<rparr>"
  let ?tk = "toStorageKey tagsStorageKey"
  let ?s0 = "setItem CacheMemoryStorage ''CacheServicea'' \<lparr>val = JNum (Finite 1), options = defaultOptions\<rparr>"
  let ?st1 = "setItem ?s0 ?tk \<lparr>val = JObj [(''g'', JArr [JStr ''CacheServicea''])], options = defaultOptions\<rparr>"
  let ?s1 = "setItem ?st1 ''CacheServiceb'' \<lparr>val = JNum (Finite 2), options = defaultOptions\<rparr>"
  let ?tbl = "[(''g'', JArr [JStr ''CacheServicea'', JStr ''CacheServiceb''])]"
  let ?st2 = "setItem ?s1 ?tk \<lparr>val = JObj ?tbl, options = defaultOptions\<rparr>"
  have o: "tag ?o = Some ''g''" "''g'' \<noteq> []" by simp_all
  have no_table: "getItem ?s0 ?tk = None"
    using storage_keys(5) by (simp add: getItem_setItem memory_items storage_keys(1))
  have set1: "cache_set CacheMemoryStorage t1 ''a'' (JNum (Finite 1)) (Some ?o) = Inr ?st1"
    unfolding cache_set_tagged_wf [OF wf_memory o storage_keys(7) scenario_tag(1)] untimed_entry toStorageValue_default
      storage_keys(1) afterRead_no_table [OF no_table] tagIndex_memory
    by (simp add: keysOf_def getProp_def setProp_def scenario_tag)
  have wf1: "tagsWellFormed ?st1"
    using wf_written [of "[(''g'', JArr [JStr ''CacheServicea''])]" ?s0 0 defaultOptions]
    by (simp add: toStorageValue_default)
  have idx1: "tagIndex ?st1 t2 = [(''g'', JArr [JStr ''CacheServicea''])]"
    using tagIndex_written [OF t2, of ?s0 0 "[(''g'', JArr [JStr ''CacheServicea''])]"]
    by (simp add: toStorageValue_default)
  have valid1: "\<forall>sv. getItem ?s1 ?tk = Some sv \<longrightarrow> validateStorageValue t2 sv"
    using storage_keys(6) t2 by (simp add: getItem_setItem storage_keys(2) validate_untimed)
  have set2: "cache_set ?st1 t2 ''b'' (JNum (Finite 2)) (Some ?o) = Inr ?st2"
    unfolding cache_set_tagged_wf [OF wf1 o storage_keys(8) scenario_tag(1)] untimed_entry toStorageValue_default
      storage_keys(2) afterRead_valid [OF valid1] idx1
    by (simp add: keysOf_def getProp_def setProp_def scenario_tag)
  have valid2: "\<forall>sv. getItem ?st2 ?tk = Some sv \<longrightarrow> validateStorageValue t3 sv"
    using t3 by (simp add: getItem_setItem validate_untimed)
  have read: "cache_get ?st2 t3 tagsStorageKey = Inr (?st2, JObj ?tbl)"
    using t3 by (simp add: cache_get_system getItem_setItem validate_untimed)
  have ga: "cache_get ?st2 t3 ''a'' = Inr (?st2, JNum (Finite 1))"
    using t3 storage_keys(5,6)
    by (simp add: cache_get_eq getItem_setItem storage_keys(1,2) validate_untimed)
  have gb: "cache_get ?st2 t3 ''b'' = Inr (?st2, JNum (Finite 2))"
    using t3 storage_keys(5,6)
    by (simp add: cache_get_eq getItem_setItem storage_keys(1,2) validate_untimed)
  have each: "getTagData_each ?st2 t3 [JStr ''CacheServicea'', JStr ''CacheServiceb''] []
      = Inr (?st2, [(''a'', JNum (Finite 1)), (''b'', JNum (Finite 2))])"
    by (simp add: storage_keys(3,4) ga gb setResult_def setProp_def scenario_names)
  have "getTagData ?st2 t3 ''g'' = Inr (?st2, [(''a'', JNum (Finite 1)), (''b'', JNum (Finite 2))])"
    unfolding getTagData_def read using each by (simp add: orEmpty_def asObject_def getProp_def)
  with set1 set2 show ?thesis by (intro exI conjI)
qed

section \<open>The bound on the calls is never reached\<close>

lemma removeFromTag_scan_fuel: "removeFromTag_scan key tbl ns \<noteq> Inl OutOfFuel"
  by (induction ns) (auto simp: Let_def split: jsval.splits)

lemma saveTag_table_fuel: "saveTag_table tbl tg key \<noteq> Inl OutOfFuel"
  by (auto simp: saveTag_table_def split: jsval.splits)

lemma asObject_fuel: "asObject v \<noteq> Inl OutOfFuel"
  by (auto simp: asObject_def split: jsval.splits)

lemma removeFromTag_never_out_of_fuel: "removeFromTag st now key \<noteq> Inl OutOfFuel"
  using removeFromTag_scan_fuel asObject_fuel
  by (auto simp: removeFromTag_closed split: sum.splits option.splits)

lemma saveTag_never_out_of_fuel: "saveTag st now tg key \<noteq> Inl OutOfFuel"
  using saveTag_table_fuel asObject_fuel
  by (auto simp: saveTag_closed split: sum.splits)

lemma cache_remove_never_out_of_fuel: "cache_remove st now k \<noteq> Inl OutOfFuel"
  by (simp add: cache_remove_eq removeFromTag_never_out_of_fuel)

lemma cache_get_never_out_of_fuel: "cache_get st now k \<noteq> Inl OutOfFuel"
  using cache_remove_never_out_of_fuel [of st now k]
  by (auto simp: cache_get_eq split: option.splits sum.splits)

lemma cache_set_never_out_of_fuel: "cache_set st now k v opts \<noteq> Inl OutOfFuel"
  using saveTag_never_out_of_fuel
  by (auto simp: cache_set_eq Let_def split: option.splits)

lemma getTagData_each_never_out_of_fuel: "getTagData_each st now keys acc \<noteq> Inl OutOfFuel"
proof (induction keys arbitrary: st acc)
  case Nil
  then show ?case by simp
next
  case (Cons key keys)
  show ?case
  proof (cases key)
    case (JStr k)
    with Cons cache_get_never_out_of_fuel [of st now "fromStorageKey k"] show ?thesis
      by (auto split: sum.splits)
  qed simp_all
qed

lemma getTagData_never_out_of_fuel: "getTagData st now tg \<noteq> Inl OutOfFuel"
  using getTagData_each_never_out_of_fuel asObject_fuel
  by (auto simp: getTagData_def cache_get_system_lookup split: sum.splits jsval.splits)

lemma removeTag_each_never_out_of_fuel: "removeTag_each st keys \<noteq> Inl OutOfFuel"
proof (induction keys arbitrary: st)
  case Nil
  then show ?case by simp
next
  case (Cons key keys)
  then show ?case by (cases key) simp_all
qed

lemma removeTag_never_out_of_fuel: "removeTag st now tg \<noteq> Inl OutOfFuel"
  using removeTag_each_never_out_of_fuel asObject_fuel
  by (auto simp: removeTag_def cache_get_system_lookup cache_set_None split: sum.splits jsval.splits)

section \<open>The claims\<close>

text \<open>
  C1. For every key and every value, \<open>set(k, v)\<close> without options followed by
  \<open>get(k)\<close> returns \<open>v\<close>: the entry is stored under the namespaced key with the
  default options, whose expiry is \<open>Number.MAX_VALUE\<close>, and the \<open>get\<close> finds it
  valid when the clock is below that (as every time value of \<open>Date.now()\<close> is).
\<close>

theorem set_get_roundtrip:
  assumes "now' < Number_MAX_VALUE"
  shows "\<exists>st'. cache_set st now k v None = Inr st'
           \<and> getItem st' (toStorageKey k) = Some \<lparr>val = v, options = defaultOptions\<rparr>
           \<and> cache_get st' now' k = Inr (st', v)"
proof -
  let ?sv = "toStorageValue now v defaultOptions"
  let ?st = "setItem st (toStorageKey k) ?sv"
  have stored: "cache_set st now k v None = Inr ?st"
    by (rule cache_set_None)
  have entry: "getItem ?st (toStorageKey k) = Some ?sv"
    by (simp add: getItem_setItem)
  have valid: "validateStorageValue now' ?sv"
    using assms by (simp add: validate_default)
  have "cache_get ?st now' k = Inr (?st, v)"
    by (simp add: cache_get_eq entry valid val_toStorageValue)
  with stored entry show ?thesis
    by (simp add: toStorageValue_default)
qed

theorem set_get_roundtrip_witness:
  "(1700000000000 :: int) < Number_MAX_VALUE
   \<and> (\<exists>st'. cache_set CacheMemoryStorage 1700000000000 ''user'' (JStr ''alice'') None = Inr st'
           \<and> getItem st' (toStorageKey ''user'') = Some \<lparr>val = JStr ''alice'', options = defaultOptions\<rparr>
           \<and> cache_get st' 1700000000000 ''user'' = Inr (st', JStr ''alice''))"
proof -
  have h: "(1700000000000 :: int) < Number_MAX_VALUE"
    by (simp add: Number_MAX_VALUE_def)
  from h set_get_roundtrip [OF h, of CacheMemoryStorage 1700000000000 "''user''" "JStr ''alice''"]
  show ?thesis by simp
qed

text \<open>
  C2, as amended. \<open>set\<close> returns on a well-formed backend when the tag, if one is
  given, is not the name of a member of \<open>Object.prototype\<close>. When \<open>set\<close> returns,
  the entry it has stored under the namespaced key has this expiry: \<open>options.expires\<close>
  when that is given and is truthy, that is neither zero nor \<open>NaN\<close> (so
  \<open>{expires: T, maxAge: 100}\<close> with such a \<open>T\<close> stores \<open>T\<close>, whatever
  \<open>maxAge\<close> is); else the sum \<open>Date.now() + maxAge * 1000\<close> in the arithmetic of
  doubles when \<open>options.maxAge\<close> is given and is truthy; else, and with no options at
  all, \<open>Number.MAX_VALUE\<close>. The sum is the exact one when \<open>maxAge * 1000\<close> is an
  integer and it and the sum are at most \<open>2^53\<close> in absolute value; beyond that it
  is rounded (\<open>maxAge\<close> \<open>2^53\<close> at the clock 1000 gives 9007199254740993024), and
  \<open>maxAge\<close> \<open>Number.MAX_VALUE\<close> gives \<open>Infinity\<close>.
\<close>

theorem set_expiry_resolution:
  "(tagsWellFormed st
      \<and> (\<forall>given t. opts = Some given \<and> tag given = Some t \<longrightarrow> t \<notin> set objectPrototypeNames)
      \<longrightarrow> (\<exists>st1. cache_set st now k v opts = Inr st1))
   \<and> (cache_set st now k v opts = Inr st' \<longrightarrow>
        (\<exists>sv. getItem st' (toStorageKey k) = Some sv \<and> val sv = v
           \<and> (\<forall>given T. opts = Some given \<and> expires given = Some T \<and> truthyNumber T
                 \<longrightarrow> expires (options sv) = Some T)
           \<and> (\<forall>given m. opts = Some given \<and> \<not> truthyNum (expires given)
                   \<and> maxAge given = Some m \<and> truthyNumber m
                 \<longrightarrow> expires (options sv) = Some (plusNow now (times1000 m)))
           \<and> (opts = None \<or> (\<exists>given. opts = Some given \<and> \<not> truthyNum (expires given)
                   \<and> \<not> truthyNum (maxAge given))
                 \<longrightarrow> expires (options sv) = Some (Finite (of_int Number_MAX_VALUE)))))
   \<and> (m * 1000 = of_int j \<and> \<bar>j\<bar> \<le> 2 ^ 53 \<and> \<bar>now + j\<bar> \<le> 2 ^ 53
        \<longrightarrow> plusNow now (times1000 (Finite m)) = Finite (of_int (now + j)))
   \<and> plusNow 1000 (times1000 (Finite (2 ^ 53))) = Finite 9007199254740993024
   \<and> plusNow now (times1000 (Finite (of_int Number_MAX_VALUE))) = PosInfinity
   \<and> (truthyNumber T \<longrightarrow>
        (\<exists>st1 sv. cache_set st now k v (Some \<lparr>expires = Some T, maxAge = Some (Finite 100), tag = None\<rparr>) = Inr st1
           \<and> getItem st1 (toStorageKey k) = Some sv \<and> expires (options sv) = Some T))"
proof (intro conjI impI)
  assume "tagsWellFormed st
      \<and> (\<forall>given t. opts = Some given \<and> tag given = Some t \<longrightarrow> t \<notin> set objectPrototypeNames)"
  then have "tagsWellFormed st"
    and "\<forall>given t. opts = Some given \<and> tag given = Some t \<longrightarrow> t \<notin> set objectPrototypeNames"
    by (rule conjunct1, rule conjunct2)
  then show "\<exists>st1. cache_set st now k v opts = Inr st1" by (rule cache_set_returns)
next
  assume a: "cache_set st now k v opts = Inr st'"
  let ?o = "case opts of Some given \<Rightarrow> given | None \<Rightarrow> defaultOptions"
  let ?sv = "toStorageValue now v ?o"
  have entry: "getItem st' (toStorageKey k) = Some ?sv" using a by (rule cache_set_entry)
  have v: "val ?sv = v" by (rule val_toStorageValue)
  have e1: "\<forall>given T. opts = Some given \<and> expires given = Some T \<and> truthyNumber T
                 \<longrightarrow> expires (options ?sv) = Some T"
    by (auto simp: expires_toStorageValue)
  have e2: "\<forall>given m. opts = Some given \<and> \<not> truthyNum (expires given)
                   \<and> maxAge given = Some m \<and> truthyNumber m
                 \<longrightarrow> expires (options ?sv) = Some (plusNow now (times1000 m))"
    by (auto simp: expires_toStorageValue)
  have e3: "opts = None \<or> (\<exists>given. opts = Some given \<and> \<not> truthyNum (expires given)
                   \<and> \<not> truthyNum (maxAge given))
                 \<longrightarrow> expires (options ?sv) = Some (Finite (of_int Number_MAX_VALUE))"
    by (auto simp: expires_toStorageValue defaultOptions_def Number_MAX_VALUE_neq0)
  from entry v e1 e2 e3
  show "\<exists>sv. getItem st' (toStorageKey k) = Some sv \<and> val sv = v
           \<and> (\<forall>given T. opts = Some given \<and> expires given = Some T \<and> truthyNumber T
                 \<longrightarrow> expires (options sv) = Some T)
           \<and> (\<forall>given m. opts = Some given \<and> \<not> truthyNum (expires given)
                   \<and> maxAge given = Some m \<and> truthyNumber m
                 \<longrightarrow> expires (options sv) = Some (plusNow now (times1000 m)))
           \<and> (opts = None \<or> (\<exists>given. opts = Some given \<and> \<not> truthyNum (expires given)
                   \<and> \<not> truthyNum (maxAge given))
                 \<longrightarrow> expires (options sv) = Some (Finite (of_int Number_MAX_VALUE)))"
    by blast
next
  assume "m * 1000 = of_int j \<and> \<bar>j\<bar> \<le> 2 ^ 53 \<and> \<bar>now + j\<bar> \<le> 2 ^ 53"
  then have "m * 1000 = of_int j" and "\<bar>j\<bar> \<le> 2 ^ 53" and "\<bar>now + j\<bar> \<le> 2 ^ 53"
    by simp_all
  then show "plusNow now (times1000 (Finite m)) = Finite (of_int (now + j))"
    by (rule maxAge_exact)
next
  show "plusNow 1000 (times1000 (Finite (2 ^ 53))) = Finite 9007199254740993024"
    by (rule maxAge_rounds)
  show "plusNow now (times1000 (Finite (of_int Number_MAX_VALUE))) = PosInfinity"
    by (rule maxAge_overflows)
next
  assume "truthyNumber T"
  then show "\<exists>st1 sv. cache_set st now k v (Some \<lparr>expires = Some T, maxAge = Some (Finite 100), tag = None\<rparr>) = Inr st1
           \<and> getItem st1 (toStorageKey k) = Some sv \<and> expires (options sv) = Some T"
    by (simp add: cache_set_untagged getItem_setItem expires_toStorageValue)
qed

theorem set_expiry_resolution_witness:
  "(\<exists>st1 sv. cache_set CacheMemoryStorage 1000 ''k'' (JNum (Finite 1))
               (Some \<lparr>expires = Some (Finite 5000), maxAge = Some (Finite 100), tag = None\<rparr>) = Inr st1
        \<and> getItem st1 (toStorageKey ''k'') = Some sv \<and> expires (options sv) = Some (Finite 5000))
   \<and> (\<exists>st1 sv. cache_set CacheMemoryStorage 1000 ''k'' (JNum (Finite 1))
               (Some \<lparr>expires = None, maxAge = Some (Finite 100), tag = Some ''g''\<rparr>) = Inr st1
        \<and> getItem st1 (toStorageKey ''k'') = Some sv \<and> expires (options sv) = Some (Finite 101000))
   \<and> (\<exists>st1 sv. cache_set CacheMemoryStorage 1000 ''k'' (JNum (Finite 1)) None = Inr st1
        \<and> getItem st1 (toStorageKey ''k'') = Some sv \<and> expires (options sv) = Some (Finite (of_int Number_MAX_VALUE)))
   \<and> plusNow 1000 (times1000 (Finite (1 / 2))) = Finite 1500"
proof -
  have a: "\<exists>st1 sv. cache_set CacheMemoryStorage 1000 ''k'' (JNum (Finite 1))
               (Some \<lparr>expires = Some (Finite 5000), maxAge = Some (Finite 100), tag = None\<rparr>) = Inr st1
        \<and> getItem st1 (toStorageKey ''k'') = Some sv \<and> expires (options sv) = Some (Finite 5000)"
    using set_expiry_resolution [where T = "Finite 5000" and st = CacheMemoryStorage and now = 1000
        and k = "''k''" and v = "JNum (Finite 1)", THEN conjunct2, THEN conjunct2, THEN conjunct2,
        THEN conjunct2, THEN conjunct2] by simp
  let ?o = "\<lparr>expires = None, maxAge = Some (Finite 100), tag = Some ''g''\<rparr>"
  note inst = set_expiry_resolution [where st = CacheMemoryStorage and now = 1000
        and k = "''k''" and v = "JNum (Finite 1)" and opts = "Some ?o" and m = 100 and j = 100000]
  have own: "\<forall>given t. Some ?o = Some given \<and> tag given = Some t \<longrightarrow> t \<notin> set objectPrototypeNames"
    by (auto simp: objectPrototypeNames_def)
  from inst [THEN conjunct1] wf_memory own obtain st1 where
    s1: "cache_set CacheMemoryStorage 1000 ''k'' (JNum (Finite 1)) (Some ?o) = Inr st1" by blast
  from inst [where st' = st1, THEN conjunct2, THEN conjunct1] s1 obtain sv where
    sv: "getItem st1 (toStorageKey ''k'') = Some sv"
      "\<forall>given m. Some ?o = Some given \<and> \<not> truthyNum (expires given)
                   \<and> maxAge given = Some m \<and> truthyNumber m
                 \<longrightarrow> expires (options sv) = Some (plusNow 1000 (times1000 m))"
    by blast
  from sv(2) have e: "expires (options sv) = Some (plusNow 1000 (times1000 (Finite 100)))" by simp
  from inst [THEN conjunct2, THEN conjunct2, THEN conjunct1]
  have "plusNow 1000 (times1000 (Finite 100)) = Finite 101000" by simp
  with e have "expires (options sv) = Some (Finite 101000)" by simp
  with s1 sv(1) have b: "\<exists>st1 sv. cache_set CacheMemoryStorage 1000 ''k'' (JNum (Finite 1)) (Some ?o) = Inr st1
        \<and> getItem st1 (toStorageKey ''k'') = Some sv \<and> expires (options sv) = Some (Finite 101000)"
    by blast
  note inst0 = set_expiry_resolution [where st = CacheMemoryStorage and now = 1000
        and k = "''k''" and v = "JNum (Finite 1)" and opts = None]
  from inst0 [THEN conjunct1] wf_memory obtain st0 where
    s0: "cache_set CacheMemoryStorage 1000 ''k'' (JNum (Finite 1)) None = Inr st0" by blast
  from inst0 [where st' = st0, THEN conjunct2, THEN conjunct1] s0
  have c: "\<exists>st1 sv. cache_set CacheMemoryStorage 1000 ''k'' (JNum (Finite 1)) None = Inr st1
        \<and> getItem st1 (toStorageKey ''k'') = Some sv \<and> expires (options sv) = Some (Finite (of_int Number_MAX_VALUE))"
    by blast
  have half: "(1 / 2 :: rat) * 1000 = of_int 500 \<and> \<bar>500 :: int\<bar> \<le> 2 ^ 53 \<and> \<bar>1000 + 500 :: int\<bar> \<le> 2 ^ 53"
    by simp
  from set_expiry_resolution [where now = 1000 and m = "1 / 2" and j = 500,
      THEN conjunct2, THEN conjunct2, THEN conjunct1, THEN mp, OF half]
  have d: "plusNow 1000 (times1000 (Finite (1 / 2))) = Finite 1500" by simp
  from a b c d show ?thesis by (intro conjI)
qed

text \<open>The claim as it was stated fails when an option is given as zero or as
  \<open>NaN\<close>: with \<open>{expires: 0, maxAge: 100}\<close> the stored expiry is the clock plus
  100 seconds, not 0; with \<open>{maxAge: 0}\<close> it is \<open>Number.MAX_VALUE\<close>, not the clock;
  with \<open>{expires: NaN}\<close> it is \<open>Number.MAX_VALUE\<close>, not \<open>NaN\<close>.\<close>

theorem set_expiry_zero_counterexample:
  "cache_set CacheMemoryStorage 1000 ''k'' (JNum (Finite 1))
       (Some \<lparr>expires = Some (Finite 0), maxAge = Some (Finite 100), tag = None\<rparr>)
     = Inr (setItem CacheMemoryStorage (toStorageKey ''k'')
              \<lparr>val = JNum (Finite 1),
               options = \<lparr>expires = Some (Finite 101000), maxAge = Some (Finite 100), tag = None\<rparr>\<rparr>)
   \<and> cache_set CacheMemoryStorage 1000 ''k'' (JNum (Finite 1))
       (Some \<lparr>expires = None, maxAge = Some (Finite 0), tag = None\<rparr>)
     = Inr (setItem CacheMemoryStorage (toStorageKey ''k'')
              \<lparr>val = JNum (Finite 1),
               options = \<lparr>expires = Some (Finite (of_int Number_MAX_VALUE)), maxAge = Some (Finite (of_int Number_MAX_VALUE)),
                          tag = None\<rparr>\<rparr>)
   \<and> cache_set CacheMemoryStorage 1000 ''k'' (JNum (Finite 1))
       (Some \<lparr>expires = Some NaN, maxAge = None, tag = None\<rparr>)
     = Inr (setItem CacheMemoryStorage (toStorageKey ''k'')
              \<lparr>val = JNum (Finite 1),
               options = \<lparr>expires = Some (Finite (of_int Number_MAX_VALUE)), maxAge = Some (Finite (of_int Number_MAX_VALUE)),
                          tag = None\<rparr>\<rparr>)
   \<and> Number_MAX_VALUE \<noteq> 1000"
proof -
  have "(100 :: rat) * 1000 = of_int 100000" and "\<bar>100000 :: int\<bar> \<le> 2 ^ 53"
    and "\<bar>1000 + 100000 :: int\<bar> \<le> 2 ^ 53" by simp_all
  from maxAge_exact [OF this] have sum: "plusNow 1000 (times1000 (Finite 100)) = Finite 101000" by simp
  have big: "Number_MAX_VALUE \<noteq> 1000" by (simp add: Number_MAX_VALUE_def)
  from sum big show ?thesis
    by (simp add: cache_set_untagged toStorageValue_def toStorageOptions_def defaultOptions_def)
qed

text \<open>
  C3. For a key whose namespaced entry is stored, \<open>get\<close> returns the stored value
  exactly when the stored expiry is strictly greater than the clock, and then leaves
  the backend as it is. Otherwise (the expiry is not greater than the clock, or there
  is none) \<open>get\<close> is \<open>remove\<close>, the scan of the tag table included, and returns
  \<open>null\<close>. On a well-formed backend the removal succeeds and the entry is gone;
  the first tag of the table whose list holds the namespaced key has lost the first
  occurrence of the key, the other tags keep their lists; when no list holds the key
  the table is as it was. After \<open>set(k, v, {maxAge: 1})\<close>, a \<open>get(k)\<close> two seconds
  later returns \<open>null\<close> and \<open>exists(k)\<close> after it returns false.
\<close>

theorem get_validates_expiry:
  "(getItem st (toStorageKey k) = Some sv \<and> expires (options sv) = Some e \<and> greaterThan e now
      \<longrightarrow> cache_get st now k = Inr (st, val sv))
   \<and> (getItem st (toStorageKey k) = Some sv \<and> (\<forall>e. expires (options sv) = Some e \<longrightarrow> \<not> greaterThan e now)
      \<longrightarrow> cache_get st now k =
            (case cache_remove st now k of Inl err \<Rightarrow> Inl err | Inr st' \<Rightarrow> Inr (st', JNull))
        \<and> cache_remove st now k = removeFromTag (removeItem st (toStorageKey k)) now (toStorageKey k)
        \<and> (tagsWellFormed st
             \<longrightarrow> (\<exists>st'. cache_get st now k = Inr (st', JNull) \<and> getItem st' (toStorageKey k) = None))
        \<and> (tagsWellFormed st \<and> now' < Number_MAX_VALUE
               \<and> tagIndex (removeItem st (toStorageKey k)) now = pre @ (t, JArr xs) # post
               \<and> (\<forall>t'\<in>fst ` set pre. JStr (toStorageKey k) \<notin> set (keysOf (pre @ (t, JArr xs) # post) t'))
               \<and> JStr (toStorageKey k) \<in> set xs
             \<longrightarrow> (\<exists>st'. cache_get st now k = Inr (st', JNull) \<and> getItem st' (toStorageKey k) = None
                    \<and> tagIndex st' now' = pre @ (t, JArr (remove1 (JStr (toStorageKey k)) xs)) # post))
        \<and> (tagsWellFormed st
               \<and> (\<forall>t'\<in>fst ` set (tagIndex (removeItem st (toStorageKey k)) now).
                     JStr (toStorageKey k) \<notin> set (keysOf (tagIndex (removeItem st (toStorageKey k)) now) t'))
             \<longrightarrow> (\<exists>st'. cache_get st now k = Inr (st', JNull) \<and> getItem st' (toStorageKey k) = None
                    \<and> tagIndex st' now = tagIndex (removeItem st (toStorageKey k)) now)))
   \<and> (tagsWellFormed st0 \<and> 0 \<le> t0 \<and> t0 \<le> 8640000000000000
      \<longrightarrow> (\<exists>st1 st2. cache_set st0 t0 k v (Some \<lparr>expires = None, maxAge = Some (Finite 1), tag = None\<rparr>) = Inr st1
             \<and> cache_get st1 (t0 + 2000) k = Inr (st2, JNull)
             \<and> cache_exists st2 t2 k = Inr (st2, False)))"
proof (intro conjI impI)
  assume "getItem st (toStorageKey k) = Some sv \<and> expires (options sv) = Some e \<and> greaterThan e now"
  then show "cache_get st now k = Inr (st, val sv)"
    by (simp add: cache_get_eq validateStorageValue_def)
next
  assume a: "getItem st (toStorageKey k) = Some sv \<and> (\<forall>e. expires (options sv) = Some e \<longrightarrow> \<not> greaterThan e now)"
  then have invalid: "\<not> validateStorageValue now sv"
    by (auto simp: validateStorageValue_def split: option.splits)
  from a have entry: "getItem st (toStorageKey k) = Some sv" by simp
  from entry invalid show get1: "cache_get st now k =
      (case cache_remove st now k of Inl err \<Rightarrow> Inl err | Inr st' \<Rightarrow> Inr (st', JNull))"
    by (rule cache_get_invalid)
  show "cache_remove st now k = removeFromTag (removeItem st (toStorageKey k)) now (toStorageKey k)"
    by (rule cache_remove_eq)
  {
    assume "tagsWellFormed st"
    from cache_remove_total [OF this, of now k] obtain st' where rm: "cache_remove st now k = Inr st'"
      by blast
    then have "getItem st' (toStorageKey k) = None" by (rule cache_remove_absent)
    with get1 rm show "\<exists>st'. cache_get st now k = Inr (st', JNull) \<and> getItem st' (toStorageKey k) = None"
      by simp
  }
  {
    assume b: "tagsWellFormed st \<and> now' < Number_MAX_VALUE
               \<and> tagIndex (removeItem st (toStorageKey k)) now = pre @ (t, JArr xs) # post
               \<and> (\<forall>t'\<in>fst ` set pre. JStr (toStorageKey k) \<notin> set (keysOf (pre @ (t, JArr xs) # post) t'))
               \<and> JStr (toStorageKey k) \<in> set xs"
    then have "tagsWellFormed st" "now' < Number_MAX_VALUE"
      "tagIndex (removeItem st (toStorageKey k)) now = pre @ (t, JArr xs) # post"
      "\<forall>t'\<in>fst ` set pre. JStr (toStorageKey k) \<notin> set (keysOf (pre @ (t, JArr xs) # post) t')"
      "JStr (toStorageKey k) \<in> set xs" by simp_all
    from cache_remove_first_match [OF this] obtain st1 where
      rm: "cache_remove st now k = Inr st1" and gone: "getItem st1 (toStorageKey k) = None"
      and idx: "tagIndex st1 now' = pre @ (t, JArr (remove1 (JStr (toStorageKey k)) xs)) # post"
      by (elim exE conjE)
    from get1 rm have "cache_get st now k = Inr (st1, JNull)" by simp
    with gone idx
    show "\<exists>st'. cache_get st now k = Inr (st', JNull) \<and> getItem st' (toStorageKey k) = None
                    \<and> tagIndex st' now' = pre @ (t, JArr (remove1 (JStr (toStorageKey k)) xs)) # post"
      by (intro exI [of _ st1] conjI)
  }
  {
    assume c: "tagsWellFormed st
               \<and> (\<forall>t'\<in>fst ` set (tagIndex (removeItem st (toStorageKey k)) now).
                     JStr (toStorageKey k) \<notin> set (keysOf (tagIndex (removeItem st (toStorageKey k)) now) t'))"
    then have "tagsWellFormed st"
      "\<forall>t'\<in>fst ` set (tagIndex (removeItem st (toStorageKey k)) now).
          JStr (toStorageKey k) \<notin> set (keysOf (tagIndex (removeItem st (toStorageKey k)) now) t')"
      by simp_all
    from cache_remove_no_match [OF this] obtain st1 where
      rm: "cache_remove st now k = Inr st1" and gone: "getItem st1 (toStorageKey k) = None"
      and idx: "tagIndex st1 now = tagIndex (removeItem st (toStorageKey k)) now"
      by (elim exE conjE)
    from get1 rm have "cache_get st now k = Inr (st1, JNull)" by simp
    with gone idx
    show "\<exists>st'. cache_get st now k = Inr (st', JNull) \<and> getItem st' (toStorageKey k) = None
                    \<and> tagIndex st' now = tagIndex (removeItem st (toStorageKey k)) now"
      by (intro exI [of _ st1] conjI)
  }
next
  assume "tagsWellFormed st0 \<and> 0 \<le> t0 \<and> t0 \<le> 8640000000000000"
  then have "tagsWellFormed st0" "0 \<le> t0" "t0 \<le> 8640000000000000" by simp_all
  then show "\<exists>st1 st2. cache_set st0 t0 k v (Some \<lparr>expires = None, maxAge = Some (Finite 1), tag = None\<rparr>) = Inr st1
             \<and> cache_get st1 (t0 + 2000) k = Inr (st2, JNull)
             \<and> cache_exists st2 t2 k = Inr (st2, False)"
    by (rule expire_scenario)
qed

theorem get_validates_expiry_witness:
  "tagsWellFormed CacheMemoryStorage
   \<and> (\<exists>st1 st2. cache_set CacheMemoryStorage 1000 ''k'' (JNum (Finite 1))
                   (Some \<lparr>expires = None, maxAge = Some (Finite 1), tag = None\<rparr>) = Inr st1
         \<and> cache_get st1 (1000 + 2000) ''k'' = Inr (st2, JNull)
         \<and> cache_exists st2 3001 ''k'' = Inr (st2, False))
   \<and> tagsWellFormed
        (setItem (setItem CacheMemoryStorage (toStorageKey ''k'')
            \<lparr>val = JNum (Finite 1), options = \<lparr>expires = Some (Finite 2000), maxAge = Some (Finite 1), tag = None\<rparr>\<rparr>)
          (toStorageKey tagsStorageKey)
          (toStorageValue 1000
             (JObj [(''f'', JArr [JStr ''CacheServiceb'']),
                    (''g'', JArr [JStr ''CacheServicek'', JStr ''CacheServiceb'']),
                    (''h'', JArr [JStr ''CacheServicek''])])
             defaultOptions))
   \<and> cache_get
        (setItem (setItem CacheMemoryStorage (toStorageKey ''k'')
            \<lparr>val = JNum (Finite 1), options = \<lparr>expires = Some (Finite 2000), maxAge = Some (Finite 1), tag = None\<rparr>\<rparr>)
          (toStorageKey tagsStorageKey)
          (toStorageValue 1000
             (JObj [(''f'', JArr [JStr ''CacheServiceb'']),
                    (''g'', JArr [JStr ''CacheServicek'', JStr ''CacheServiceb'']),
                    (''h'', JArr [JStr ''CacheServicek''])])
             defaultOptions))
        1999 ''k''
       = Inr (setItem (setItem CacheMemoryStorage (toStorageKey ''k'')
            \<lparr>val = JNum (Finite 1), options = \<lparr>expires = Some (Finite 2000), maxAge = Some (Finite 1), tag = None\<rparr>\<rparr>)
          (toStorageKey tagsStorageKey)
          (toStorageValue 1000
             (JObj [(''f'', JArr [JStr ''CacheServiceb'']),
                    (''g'', JArr [JStr ''CacheServicek'', JStr ''CacheServiceb'']),
                    (''h'', JArr [JStr ''CacheServicek''])])
             defaultOptions), JNum (Finite 1))
   \<and> (\<exists>st'. cache_get
        (setItem (setItem CacheMemoryStorage (toStorageKey ''k'')
            \<lparr>val = JNum (Finite 1), options = \<lparr>expires = Some (Finite 2000), maxAge = Some (Finite 1), tag = None\<rparr>\<rparr>)
          (toStorageKey tagsStorageKey)
          (toStorageValue 1000
             (JObj [(''f'', JArr [JStr ''CacheServiceb'']),
                    (''g'', JArr [JStr ''CacheServicek'', JStr ''CacheServiceb'']),
                    (''h'', JArr [JStr ''CacheServicek''])])
             defaultOptions))
        2000 ''k''
       = Inr (st', JNull)
       \<and> getItem st' (toStorageKey ''k'') = None
       \<and> tagIndex st' 2000 =
           [(''f'', JArr [JStr ''CacheServiceb'']),
            (''g'', JArr [JStr ''CacheServiceb'']),
            (''h'', JArr [JStr ''CacheServicek''])])"
proof -
  let ?sv = "\<lparr>val = JNum (Finite 1), options = \<lparr>expires = Some (Finite 2000), maxAge = Some (Finite 1), tag = None\<rparr>\<rparr>"
  let ?tbl = "[(''f'', JArr [JStr ''CacheServiceb'']),
               (''g'', JArr [JStr ''CacheServicek'', JStr ''CacheServiceb'']),
               (''h'', JArr [JStr ''CacheServicek''])]"
  let ?st = "setItem (setItem CacheMemoryStorage (toStorageKey ''k'') ?sv)
               (toStorageKey tagsStorageKey) (toStorageValue 1000 (JObj ?tbl) defaultOptions)"
  have h: "(2000 :: int) < Number_MAX_VALUE" by (simp add: Number_MAX_VALUE_def)
  have ne: "toStorageKey ''k'' \<noteq> toStorageKey tagsStorageKey"
    by (simp add: toStorageKey_inj tagsStorageKey_def)
  have key: "toStorageKey ''k'' = ''CacheServicek''" by (simp add: toStorageKey_def CACHE_PREFIX_def)
  have entry: "getItem ?st (toStorageKey ''k'') = Some ?sv" using ne by (simp add: getItem_setItem)
  have wf: "tagsWellFormed ?st" by (rule wf_written) simp
  have exp: "expires (options ?sv) = Some (Finite 2000)" by simp
  note inst = get_validates_expiry [where st = ?st and k = "''k''" and sv = ?sv and e = "Finite 2000"
      and st0 = CacheMemoryStorage and ?t0.0 = 1000 and v = "JNum (Finite 1)" and ?t2.0 = 3001
      and now' = 2000 and pre = "[(''f'', JArr [JStr ''CacheServiceb''])]" and t = "''g''"
      and xs = "[JStr ''CacheServicek'', JStr ''CacheServiceb'']"
      and post = "[(''h'', JArr [JStr ''CacheServicek''])]"]
  have pre1: "getItem ?st (toStorageKey ''k'') = Some ?sv \<and> expires (options ?sv) = Some (Finite 2000)
      \<and> greaterThan (Finite 2000) 1999"
    using entry by simp
  from inst [where now = 1999, THEN conjunct1, THEN mp, OF pre1]
  have fresh: "cache_get ?st 1999 ''k'' = Inr (?st, JNum (Finite 1))" by simp
  have pre2: "getItem ?st (toStorageKey ''k'') = Some ?sv
      \<and> (\<forall>e. expires (options ?sv) = Some e \<longrightarrow> \<not> greaterThan e 2000)"
    using entry by simp
  have idx: "tagIndex (removeItem ?st (toStorageKey ''k'')) 2000
      = [(''f'', JArr [JStr ''CacheServiceb''])]
        @ (''g'', JArr [JStr ''CacheServicek'', JStr ''CacheServiceb''])
        # [(''h'', JArr [JStr ''CacheServicek''])]"
    using ne h by (simp add: tagIndex_removeItem_other tagIndex_written)
  have before: "\<forall>t'\<in>fst ` set [(''f'', JArr [JStr ''CacheServiceb''])].
      JStr (toStorageKey ''k'') \<notin> set (keysOf ([(''f'', JArr [JStr ''CacheServiceb''])]
        @ (''g'', JArr [JStr ''CacheServicek'', JStr ''CacheServiceb''])
        # [(''h'', JArr [JStr ''CacheServicek''])]) t')"
    by (simp add: keysOf_def getProp_def key)
  have hit: "JStr (toStorageKey ''k'') \<in> set [JStr ''CacheServicek'', JStr ''CacheServiceb'']"
    by (simp add: key)
  have pre3: "tagsWellFormed ?st \<and> (2000 :: int) < Number_MAX_VALUE
      \<and> tagIndex (removeItem ?st (toStorageKey ''k'')) 2000
          = [(''f'', JArr [JStr ''CacheServiceb''])]
            @ (''g'', JArr [JStr ''CacheServicek'', JStr ''CacheServiceb''])
            # [(''h'', JArr [JStr ''CacheServicek''])]
      \<and> (\<forall>t'\<in>fst ` set [(''f'', JArr [JStr ''CacheServiceb''])].
            JStr (toStorageKey ''k'') \<notin> set (keysOf ([(''f'', JArr [JStr ''CacheServiceb''])]
              @ (''g'', JArr [JStr ''CacheServicek'', JStr ''CacheServiceb''])
              # [(''h'', JArr [JStr ''CacheServicek''])]) t'))
      \<and> JStr (toStorageKey ''k'') \<in> set [JStr ''CacheServicek'', JStr ''CacheServiceb'']"
    using wf h idx before hit by (intro conjI)
  from inst [where now = 2000, THEN conjunct2, THEN conjunct1, THEN mp, OF pre2]
  have "tagsWellFormed ?st \<and> (2000 :: int) < Number_MAX_VALUE
      \<and> tagIndex (removeItem ?st (toStorageKey ''k'')) 2000
          = [(''f'', JArr [JStr ''CacheServiceb''])]
            @ (''g'', JArr [JStr ''CacheServicek'', JStr ''CacheServiceb''])
            # [(''h'', JArr [JStr ''CacheServicek''])]
      \<and> (\<forall>t'\<in>fst ` set [(''f'', JArr [JStr ''CacheServiceb''])].
            JStr (toStorageKey ''k'') \<notin> set (keysOf ([(''f'', JArr [JStr ''CacheServiceb''])]
              @ (''g'', JArr [JStr ''CacheServicek'', JStr ''CacheServiceb''])
              # [(''h'', JArr [JStr ''CacheServicek''])]) t'))
      \<and> JStr (toStorageKey ''k'') \<in> set [JStr ''CacheServicek'', JStr ''CacheServiceb'']
     \<longrightarrow> (\<exists>st'. cache_get ?st 2000 ''k'' = Inr (st', JNull) \<and> getItem st' (toStorageKey ''k'') = None
            \<and> tagIndex st' 2000 = [(''f'', JArr [JStr ''CacheServiceb''])]
                @ (''g'', JArr (remove1 (JStr (toStorageKey ''k'')) [JStr ''CacheServicek'', JStr ''CacheServiceb'']))
                # [(''h'', JArr [JStr ''CacheServicek''])])"
    by (elim conjE)
  from this [THEN mp, OF pre3] obtain st' where
    r1: "cache_get ?st 2000 ''k'' = Inr (st', JNull)" and r2: "getItem st' (toStorageKey ''k'') = None"
    and r3: "tagIndex st' 2000 = [(''f'', JArr [JStr ''CacheServiceb''])]
        @ (''g'', JArr (remove1 (JStr (toStorageKey ''k'')) [JStr ''CacheServicek'', JStr ''CacheServiceb'']))
        # [(''h'', JArr [JStr ''CacheServicek''])]"
    by (elim exE conjE)
  from r3 have r4: "tagIndex st' 2000 =
           [(''f'', JArr [JStr ''CacheServiceb'']),
            (''g'', JArr [JStr ''CacheServiceb'']),
            (''h'', JArr [JStr ''CacheServicek''])]"
    by (simp add: key)
  from r1 r2 r4
  have gone: "\<exists>st'. cache_get ?st 2000 ''k'' = Inr (st', JNull) \<and> getItem st' (toStorageKey ''k'') = None
      \<and> tagIndex st' 2000 =
           [(''f'', JArr [JStr ''CacheServiceb'']),
            (''g'', JArr [JStr ''CacheServiceb'']),
            (''h'', JArr [JStr ''CacheServicek''])]"
    by (intro exI [of _ st'] conjI)
  have pre4: "tagsWellFormed CacheMemoryStorage \<and> (0 :: int) \<le> 1000 \<and> (1000 :: int) \<le> 8640000000000000"
    by (simp add: wf_memory)
  from inst [where now = 2000, THEN conjunct2, THEN conjunct2, THEN mp, OF pre4]
  have scen: "\<exists>st1 st2. cache_set CacheMemoryStorage 1000 ''k'' (JNum (Finite 1))
                   (Some \<lparr>expires = None, maxAge = Some (Finite 1), tag = None\<rparr>) = Inr st1
         \<and> cache_get st1 (1000 + 2000) ''k'' = Inr (st2, JNull)
         \<and> cache_exists st2 3001 ''k'' = Inr (st2, False)" .
  from wf_memory scen wf fresh gone show ?thesis by (intro conjI)
qed

text \<open>
  C4, as amended. The constructor keeps a backend that is supplied and enabled. With no
  backend it takes the session backend, and the in-memory backend when the session
  backend is not enabled. With a backend that is supplied and not enabled it takes the
  in-memory backend at once: the session backend is not tried. The backend it ends with
  is enabled, and no call of the service changes the type or the enabled flag of the
  backend: the choice is made once.
\<close>

theorem backend_selection:
  "constructor host None = (if sessionEnabled host then CacheSessionStorage host else CacheMemoryStorage)
   \<and> (\<not> isEnabled supplied \<longrightarrow> constructor host (Some supplied) = CacheMemoryStorage)
   \<and> (isEnabled supplied \<longrightarrow> constructor host (Some supplied) = supplied)
   \<and> storageType (CacheSessionStorage host) = SESSION_STORAGE
   \<and> storageType CacheMemoryStorage = MEMORY
   \<and> isEnabled (constructor host storage)
   \<and> (cache_set st now k v opts = Inr st' \<longrightarrow> storageType st' = storageType st \<and> enabled st' = enabled st)
   \<and> (cache_get st now k = Inr (st', r) \<longrightarrow> storageType st' = storageType st \<and> enabled st' = enabled st)
   \<and> (cache_exists st now k = Inr (st', b) \<longrightarrow> storageType st' = storageType st \<and> enabled st' = enabled st)
   \<and> (cache_remove st now k = Inr st' \<longrightarrow> storageType st' = storageType st \<and> enabled st' = enabled st)
   \<and> storageType (removeAll st) = storageType st \<and> enabled (removeAll st) = enabled st
   \<and> (getTagData st now tg = Inr (st', res) \<longrightarrow> storageType st' = storageType st \<and> enabled st' = enabled st)
   \<and> (removeTag st now tg = Inr st' \<longrightarrow> storageType st' = storageType st \<and> enabled st' = enabled st)"
proof -
  have none: "constructor host None = (if sessionEnabled host then CacheSessionStorage host else CacheMemoryStorage)"
    by (simp add: constructor_def validateStorage_def initStorage_def DEFAULT_STORAGE_def
        DEFAULT_ENABLED_STORAGE_def isEnabled_def CacheSessionStorage_def)
  have off: "\<not> isEnabled supplied \<longrightarrow> constructor host (Some supplied) = CacheMemoryStorage"
    by (simp add: constructor_def validateStorage_def initStorage_def DEFAULT_ENABLED_STORAGE_def)
  have on: "isEnabled supplied \<longrightarrow> constructor host (Some supplied) = supplied"
    by (simp add: constructor_def validateStorage_def)
  have en: "isEnabled (constructor host storage)"
    by (cases storage)
      (auto simp: constructor_def validateStorage_def initStorage_def DEFAULT_STORAGE_def
        DEFAULT_ENABLED_STORAGE_def isEnabled_def CacheSessionStorage_def CacheMemoryStorage_def Let_def)
  have types: "storageType (CacheSessionStorage host) = SESSION_STORAGE" "storageType CacheMemoryStorage = MEMORY"
    by (simp_all add: CacheSessionStorage_def CacheMemoryStorage_def)
  have all: "storageType (removeAll st) = storageType st" "enabled (removeAll st) = enabled st"
    by (simp_all add: removeAll_def backend_clear)
  from none off on en types all
    cache_set_frame(1,2) [of st now k v opts st'] cache_get_frame(1,2) [of st now k st' r]
    cache_exists_frame [of st now k st' b] cache_remove_frame(1,2) [of st now k st']
    getTagData_frame [of st now tg st' res] removeTag_frame [of st now tg st']
  show ?thesis by blast
qed

theorem backend_selection_witness:
  "\<not> isEnabled \<lparr>items = Map.empty, storageType = LOCAL_STORAGE, enabled = False\<rparr>
   \<and> constructor \<lparr>sessionEnabled = True, sessionItems = Map.empty, localEnabled = False, localItems = Map.empty\<rparr>
        (Some \<lparr>items = Map.empty, storageType = LOCAL_STORAGE, enabled = False\<rparr>) = CacheMemoryStorage
   \<and> storageType CacheMemoryStorage = MEMORY
   \<and> cache_set CacheMemoryStorage 1000 ''k'' (JNum (Finite 1)) None
       = Inr (setItem CacheMemoryStorage (toStorageKey ''k'') (toStorageValue 1000 (JNum (Finite 1)) defaultOptions))
   \<and> storageType (setItem CacheMemoryStorage (toStorageKey ''k'') (toStorageValue 1000 (JNum (Finite 1)) defaultOptions)) = MEMORY"
proof -
  let ?host = "\<lparr>sessionEnabled = True, sessionItems = Map.empty, localEnabled = False, localItems = Map.empty\<rparr>"
  let ?off = "\<lparr>items = Map.empty, storageType = LOCAL_STORAGE, enabled = False\<rparr>"
  let ?st' = "setItem CacheMemoryStorage (toStorageKey ''k'') (toStorageValue 1000 (JNum (Finite 1)) defaultOptions)"
  have off: "\<not> isEnabled ?off" by (simp add: isEnabled_def)
  have s: "cache_set CacheMemoryStorage 1000 ''k'' (JNum (Finite 1)) None = Inr ?st'" by (rule cache_set_None)
  note inst = backend_selection [of ?host ?off _ CacheMemoryStorage 1000 "''k''" "JNum (Finite 1)" None ?st']
  from inst off have c: "constructor ?host (Some ?off) = CacheMemoryStorage" by blast
  from inst have m: "storageType CacheMemoryStorage = MEMORY" by blast
  from inst s have "storageType ?st' = storageType CacheMemoryStorage" by blast
  with m have t: "storageType ?st' = MEMORY" by simp
  from off c m s t show ?thesis by blast
qed

text \<open>The claim as it was stated fails for a supplied backend that is not enabled:
  the fallback does not go through the session backend first. On a host whose session
  storage is enabled the constructor ends with the in-memory backend, not with the
  session backend.\<close>

theorem backend_fallback_counterexample:
  "isEnabled (CacheSessionStorage
      \<lparr>sessionEnabled = True, sessionItems = Map.empty, localEnabled = False, localItems = Map.empty\<rparr>)
   \<and> storageType (constructor
        \<lparr>sessionEnabled = True, sessionItems = Map.empty, localEnabled = False, localItems = Map.empty\<rparr>
        (Some \<lparr>items = Map.empty, storageType = LOCAL_STORAGE, enabled = False\<rparr>)) = MEMORY
   \<and> storageType (CacheSessionStorage
        \<lparr>sessionEnabled = True, sessionItems = Map.empty, localEnabled = False, localItems = Map.empty\<rparr>)
       = SESSION_STORAGE"
  by (simp add: constructor_def validateStorage_def initStorage_def DEFAULT_ENABLED_STORAGE_def
      isEnabled_def CacheSessionStorage_def CacheMemoryStorage_def)




text \<open>
  C6, as amended. On a well-formed backend, when the table has no tag \<open>t\<close> and
  \<open>t\<close> is not the name of a member of \<open>Object.prototype\<close>, \<open>getTagData(t)\<close>
  returns the empty mapping. When the table has the tag, and the reserved key of the
  table is not among the listed keys, it returns a mapping whose own properties are
  exactly the de-namespaced listed keys, other than \<open>__proto__\<close>, for which
  \<open>get\<close> returns a truthy value, each once and with that value (\<open>lookup\<close> is
  what \<open>get\<close> returns): a key whose entry is missing or has expired is left out,
  and so is a key whose stored value is falsy. After \<open>set("a", 1, {tag: "g"})\<close> and
  \<open>set("b", 2, {tag: "g"})\<close> on the empty in-memory backend, \<open>getTagData("g")\<close>
  is \<open>{a: 1, b: 2}\<close>.
\<close>

theorem getTagData_collects_truthy:
  "(tagsWellFormed st \<longrightarrow> (\<exists>st'. cache_get st now k = Inr (st', lookup st now k)))
   \<and> (tagsWellFormed st \<and> t \<notin> fst ` set (tagIndex st now) \<and> t \<notin> set objectPrototypeNames
      \<longrightarrow> getTagData st now t = Inr (afterRead st now, []))
   \<and> (tagsWellFormed st \<and> t \<in> fst ` set (tagIndex st now)
        \<and> keysOf (tagIndex st now) t = map JStr ks
        \<and> (\<forall>key\<in>set ks. fromStorageKey key \<noteq> tagsStorageKey)
      \<longrightarrow> (\<exists>st' res. getTagData st now t = Inr (st', res)
             \<and> distinct (map fst res)
             \<and> (\<forall>k'. map_of res k' =
                   (if k' \<in> fromStorageKey ` set ks \<and> k' \<noteq> ''__proto__'' \<and> truthy (lookup st now k')
                    then Some (lookup st now k') else None))))
   \<and> (tb < Number_MAX_VALUE \<and> tc < Number_MAX_VALUE
      \<longrightarrow> (\<exists>st1 st2.
             cache_set CacheMemoryStorage ta ''a'' (JNum (Finite 1)) (Some \<lparr>expires = None, maxAge = None, tag = Some ''g''\<rparr>) = Inr st1
           \<and> cache_set st1 tb ''b'' (JNum (Finite 2)) (Some \<lparr>expires = None, maxAge = None, tag = Some ''g''\<rparr>) = Inr st2
           \<and> getTagData st2 tc ''g'' = Inr (st2, [(''a'', JNum (Finite 1)), (''b'', JNum (Finite 2))])))"
proof (intro conjI impI)
  assume "tagsWellFormed st"
  from cache_get_total [OF this, of now k]
  show "\<exists>st'. cache_get st now k = Inr (st', lookup st now k)" by blast
next
  assume "tagsWellFormed st \<and> t \<notin> fst ` set (tagIndex st now) \<and> t \<notin> set objectPrototypeNames"
  then show "getTagData st now t = Inr (afterRead st now, [])" by (simp add: getTagData_absent)
next
  assume a: "tagsWellFormed st \<and> t \<in> fst ` set (tagIndex st now)
        \<and> keysOf (tagIndex st now) t = map JStr ks
        \<and> (\<forall>key\<in>set ks. fromStorageKey key \<noteq> tagsStorageKey)"
  then have "tagsWellFormed st" "t \<in> fst ` set (tagIndex st now)"
    "keysOf (tagIndex st now) t = map JStr ks" "\<forall>key\<in>set ks. fromStorageKey key \<noteq> tagsStorageKey"
    by simp_all
  from getTagData_listed [OF this] obtain st' res where
    d: "getTagData st now t = Inr (st', res)"
    and m: "\<forall>k'. map_of res k' =
                   (if k' \<in> fromStorageKey ` set ks \<and> k' \<noteq> ''__proto__'' \<and> truthy (lookup st now k')
                    then Some (lookup st now k') else None)"
    by (elim exE conjE)
  from d have "distinct (map fst res)" by (rule getTagData_distinct)
  with d m show "\<exists>st' res. getTagData st now t = Inr (st', res)
             \<and> distinct (map fst res)
             \<and> (\<forall>k'. map_of res k' =
                   (if k' \<in> fromStorageKey ` set ks \<and> k' \<noteq> ''__proto__'' \<and> truthy (lookup st now k')
                    then Some (lookup st now k') else None))"
    by (intro exI [of _ st'] exI [of _ res] conjI)
next
  assume "tb < Number_MAX_VALUE \<and> tc < Number_MAX_VALUE"
  then have "tb < Number_MAX_VALUE" "tc < Number_MAX_VALUE" by simp_all
  then show "\<exists>st1 st2.
             cache_set CacheMemoryStorage ta ''a'' (JNum (Finite 1)) (Some \<lparr>expires = None, maxAge = None, tag = Some ''g''\<rparr>) = Inr st1
           \<and> cache_set st1 tb ''b'' (JNum (Finite 2)) (Some \<lparr>expires = None, maxAge = None, tag = Some ''g''\<rparr>) = Inr st2
           \<and> getTagData st2 tc ''g'' = Inr (st2, [(''a'', JNum (Finite 1)), (''b'', JNum (Finite 2))])"
    by (rule tag_grouping_scenario)
qed

theorem getTagData_collects_truthy_witness:
  "(1000 :: int) < Number_MAX_VALUE
   \<and> (\<exists>st1 st2.
         cache_set CacheMemoryStorage 1000 ''a'' (JNum (Finite 1)) (Some \<lparr>expires = None, maxAge = None, tag = Some ''g''\<rparr>) = Inr st1
       \<and> cache_set st1 1000 ''b'' (JNum (Finite 2)) (Some \<lparr>expires = None, maxAge = None, tag = Some ''g''\<rparr>) = Inr st2
       \<and> getTagData st2 1000 ''g'' = Inr (st2, [(''a'', JNum (Finite 1)), (''b'', JNum (Finite 2))]))
   \<and> tagsWellFormed CacheMemoryStorage
   \<and> getTagData CacheMemoryStorage 1000 ''g'' = Inr (CacheMemoryStorage, [])
   \<and> (\<exists>st' res. getTagData
          (setItem (setItem (setItem CacheMemoryStorage
             ''CacheServicea'' \<lparr>val = JNum (Finite 1), options = defaultOptions\<rparr>)
             ''CacheServiceb'' \<lparr>val = JNum (Finite 0), options = defaultOptions\<rparr>)
             (toStorageKey tagsStorageKey)
             (toStorageValue 0 (JObj [(''g'', JArr [JStr ''CacheServicea'', JStr ''CacheServiceb'', JStr ''CacheServicec''])])
                defaultOptions))
          1000 ''g'' = Inr (st', res)
        \<and> map_of res ''a'' = Some (JNum (Finite 1)) \<and> map_of res ''b'' = None \<and> map_of res ''c'' = None)"
proof -
  let ?tbl = "[(''g'', JArr [JStr ''CacheServicea'', JStr ''CacheServiceb'', JStr ''CacheServicec''])]"
  let ?st = "setItem (setItem (setItem CacheMemoryStorage
             ''CacheServicea'' \<lparr>val = JNum (Finite 1), options = defaultOptions\<rparr>)
             ''CacheServiceb'' \<lparr>val = JNum (Finite 0), options = defaultOptions\<rparr>)
             (toStorageKey tagsStorageKey) (toStorageValue 0 (JObj ?tbl) defaultOptions)"
  have h: "(1000 :: int) < Number_MAX_VALUE" by (simp add: Number_MAX_VALUE_def)
  note inst = getTagData_collects_truthy [where st = CacheMemoryStorage and now = 1000 and t = "''g''"
      and ta = 1000 and tb = 1000 and tc = 1000]
  from h have hh: "(1000 :: int) < Number_MAX_VALUE \<and> (1000 :: int) < Number_MAX_VALUE" by simp
  from inst [THEN conjunct2, THEN conjunct2, THEN conjunct2, THEN mp, OF hh]
  have scen: "\<exists>st1 st2.
         cache_set CacheMemoryStorage 1000 ''a'' (JNum (Finite 1)) (Some \<lparr>expires = None, maxAge = None, tag = Some ''g''\<rparr>) = Inr st1
       \<and> cache_set st1 1000 ''b'' (JNum (Finite 2)) (Some \<lparr>expires = None, maxAge = None, tag = Some ''g''\<rparr>) = Inr st2
       \<and> getTagData st2 1000 ''g'' = Inr (st2, [(''a'', JNum (Finite 1)), (''b'', JNum (Finite 2))])" .
  have pre: "tagsWellFormed CacheMemoryStorage \<and> ''g'' \<notin> fst ` set (tagIndex CacheMemoryStorage 1000)
      \<and> ''g'' \<notin> set objectPrototypeNames"
    by (simp add: wf_memory tagIndex_memory scenario_tag)
  from inst [THEN conjunct2, THEN conjunct1, THEN mp, OF pre]
  have "getTagData CacheMemoryStorage 1000 ''g'' = Inr (afterRead CacheMemoryStorage 1000, [])" .
  then have empty: "getTagData CacheMemoryStorage 1000 ''g'' = Inr (CacheMemoryStorage, [])"
    by (simp add: afterRead_no_table memory_items)
  have wf: "tagsWellFormed ?st" by (rule wf_written) simp
  have idx: "tagIndex ?st 1000 = ?tbl" using h by (rule tagIndex_written)
  have keys: "toStorageKey ''a'' = ''CacheServicea''" "toStorageKey ''b'' = ''CacheServiceb''"
    "toStorageKey ''c'' = ''CacheServicec''" "toStorageKey tagsStorageKey = ''CacheServiceCacheService_tags''"
    "fromStorageKey ''CacheServicea'' = ''a''" "fromStorageKey ''CacheServiceb'' = ''b''"
    "fromStorageKey ''CacheServicec'' = ''c''"
    by (simp_all add: toStorageKey_def fromStorageKey_def CACHE_PREFIX_def tagsStorageKey_def)
  have pre3: "tagsWellFormed ?st \<and> ''g'' \<in> fst ` set (tagIndex ?st 1000)
        \<and> keysOf (tagIndex ?st 1000) ''g'' = map JStr [''CacheServicea'', ''CacheServiceb'', ''CacheServicec'']
        \<and> (\<forall>key\<in>set [''CacheServicea'', ''CacheServiceb'', ''CacheServicec'']. fromStorageKey key \<noteq> tagsStorageKey)"
    unfolding idx using wf by (simp add: keysOf_def getProp_def keys tagsStorageKey_def)
  from getTagData_collects_truthy [where st = ?st and now = 1000 and t = "''g''"
      and ks = "[''CacheServicea'', ''CacheServiceb'', ''CacheServicec'']",
      THEN conjunct2, THEN conjunct2, THEN conjunct1, THEN mp, OF pre3]
  obtain st' res where
    data: "getTagData ?st 1000 ''g'' = Inr (st', res)"
    and m: "\<forall>k'. map_of res k' =
        (if k' \<in> fromStorageKey ` set [''CacheServicea'', ''CacheServiceb'', ''CacheServicec'']
              \<and> k' \<noteq> ''__proto__'' \<and> truthy (lookup ?st 1000 k')
         then Some (lookup ?st 1000 k') else None)"
    by (elim exE conjE)
  have la: "lookup ?st 1000 ''a'' = JNum (Finite 1)" and lb: "lookup ?st 1000 ''b'' = JNum (Finite 0)"
    and lc: "lookup ?st 1000 ''c'' = JNull"
    using h by (simp_all add: lookup_def getItem_setItem keys memory_items validate_untimed)
  have names: "fromStorageKey ` set [''CacheServicea'', ''CacheServiceb'', ''CacheServicec''] = {''a'', ''b'', ''c''}"
    by (simp add: keys(5-7))
  from m [THEN spec, of "''a''"] have ra: "map_of res ''a'' = Some (JNum (Finite 1))"
    unfolding la names by simp
  from m [THEN spec, of "''b''"] have rb: "map_of res ''b'' = None"
    unfolding lb names by simp
  from m [THEN spec, of "''c''"] have rc: "map_of res ''c'' = None"
    unfolding lc names by simp
  from data ra rb rc have general: "\<exists>st' res. getTagData ?st 1000 ''g'' = Inr (st', res)
        \<and> map_of res ''a'' = Some (JNum (Finite 1)) \<and> map_of res ''b'' = None \<and> map_of res ''c'' = None"
    by (intro exI conjI)
  from h scen wf_memory empty general show ?thesis by (intro conjI)
qed

text \<open>The claim as it was stated fails for a tag that every object inherits: the
  empty table has no tag \<open>constructor\<close>, and \<open>getTagData("constructor")\<close> throws
  instead of returning the empty mapping. It fails also for a stored value that is
  falsy: after \<open>set("a", 0, {tag: "g"})\<close>, \<open>get("a")\<close> returns 0, which is not
  absent, and \<open>getTagData("g")\<close> is empty.\<close>

theorem getTagData_falsy_counterexample:
  "getTagData CacheMemoryStorage 1000 ''constructor'' = Inl TypeError
   \<and> cache_set CacheMemoryStorage 1000 ''a'' (JNum (Finite 0)) (Some \<lparr>expires = None, maxAge = None, tag = Some ''g''\<rparr>)
     = Inr (setItem (setItem CacheMemoryStorage ''CacheServicea'' \<lparr>val = JNum (Finite 0), options = defaultOptions\<rparr>)
              (toStorageKey tagsStorageKey)
              \<lparr>val = JObj [(''g'', JArr [JStr ''CacheServicea''])], options = defaultOptions\<rparr>)
   \<and> cache_get (setItem (setItem CacheMemoryStorage ''CacheServicea'' \<lparr>val = JNum (Finite 0), options = defaultOptions\<rparr>)
              (toStorageKey tagsStorageKey)
              \<lparr>val = JObj [(''g'', JArr [JStr ''CacheServicea''])], options = defaultOptions\<rparr>) 1000 ''a''
     = Inr (setItem (setItem CacheMemoryStorage ''CacheServicea'' \<lparr>val = JNum (Finite 0), options = defaultOptions\<rparr>)
              (toStorageKey tagsStorageKey)
              \<lparr>val = JObj [(''g'', JArr [JStr ''CacheServicea''])], options = defaultOptions\<rparr>, JNum (Finite 0))
   \<and> getTagData (setItem (setItem CacheMemoryStorage ''CacheServicea'' \<lparr>val = JNum (Finite 0), options = defaultOptions\<rparr>)
              (toStorageKey tagsStorageKey)
              \<lparr>val = JObj [(''g'', JArr [JStr ''CacheServicea''])], options = defaultOptions\<rparr>) 1000 ''g''
     = Inr (setItem (setItem CacheMemoryStorage ''CacheServicea'' \<lparr>val = JNum (Finite 0), options = defaultOptions\<rparr>)
              (toStorageKey tagsStorageKey)
              \<lparr>val = JObj [(''g'', JArr [JStr ''CacheServicea''])], options = defaultOptions\<rparr>, [])"
proof -
  let ?o = "\<lparr>expires = None, maxAge = None, tag = Some ''g''\<rparr>"
  let ?tk = "toStorageKey tagsStorageKey"
  let ?s0 = "setItem CacheMemoryStorage ''CacheServicea'' \<lparr>val = JNum (Finite 0), options = defaultOptions\<rparr>"
  let ?st1 = "setItem ?s0 ?tk \<lparr>val = JObj [(''g'', JArr [JStr ''CacheServicea''])], options = defaultOptions\<rparr>"
  have h: "(1000 :: int) < Number_MAX_VALUE" by (simp add: Number_MAX_VALUE_def)
  have o: "tag ?o = Some ''g''" "''g'' \<noteq> []" by simp_all
  have no_table: "getItem ?s0 ?tk = None"
    using storage_keys(5) by (simp add: getItem_setItem memory_items storage_keys(1))
  have set1: "cache_set CacheMemoryStorage 1000 ''a'' (JNum (Finite 0)) (Some ?o) = Inr ?st1"
    unfolding cache_set_tagged_wf [OF wf_memory o storage_keys(7) scenario_tag(1)] untimed_entry toStorageValue_default
      storage_keys(1) afterRead_no_table [OF no_table] tagIndex_memory
    by (simp add: keysOf_def getProp_def setProp_def scenario_tag)
  have read: "cache_get ?st1 1000 tagsStorageKey = Inr (?st1, JObj [(''g'', JArr [JStr ''CacheServicea''])])"
    using h by (simp add: cache_get_system getItem_setItem validate_untimed)
  have ga: "cache_get ?st1 1000 ''a'' = Inr (?st1, JNum (Finite 0))"
    using h storage_keys(5)
    by (simp add: cache_get_eq getItem_setItem storage_keys(1) validate_untimed)
  have each: "getTagData_each ?st1 1000 [JStr ''CacheServicea''] [] = Inr (?st1, [])"
    by (simp add: storage_keys(3) ga)
  have data: "getTagData ?st1 1000 ''g'' = Inr (?st1, [])"
    unfolding getTagData_def read using each by (simp add: orEmpty_def asObject_def getProp_def)
  have thrown: "getTagData CacheMemoryStorage 1000 ''constructor'' = Inl TypeError"
    by (rule getTagData_inherited [OF wf_memory]) (simp_all add: tagIndex_memory objectPrototypeNames_def)
  from thrown set1 ga data show ?thesis by (intro conjI)
qed

text \<open>
  C7, as amended. On a well-formed backend, \<open>removeTag(t)\<close> for a tag the table
  does not have, and that is not the name of a member of \<open>Object.prototype\<close>, stores
  nothing: it leaves the backend the reading of the table leaves, which is the backend
  itself unless the entry of the table had expired and the reading removed it; the
  other entries and the table that is read are as they were. For a tag of the table it
  removes every listed key from the backend with \<open>removeItem\<close>, takes the tag out of
  the table and stores the table: the other entries and the other tags are as before
  (no list of another tag is scanned), \<open>get\<close> on each of the keys then returns
  \<open>null\<close> and, for a tag that is not the name of a member of
  \<open>Object.prototype\<close>, \<open>getTagData(t)\<close> the empty mapping.
\<close>

theorem removeTag_drops_tag:
  "(tagsWellFormed st \<and> t \<notin> fst ` set (tagIndex st now) \<and> t \<notin> set objectPrototypeNames
      \<longrightarrow> removeTag st now t = Inr (afterRead st now)
        \<and> tagIndex (afterRead st now) now = tagIndex st now
        \<and> (\<forall>sk. sk \<noteq> toStorageKey tagsStorageKey \<longrightarrow> getItem (afterRead st now) sk = getItem st sk)
        \<and> ((\<forall>sv. getItem st (toStorageKey tagsStorageKey) = Some sv \<longrightarrow> validateStorageValue now sv)
             \<longrightarrow> removeTag st now t = Inr st))
   \<and> (tagsWellFormed st \<and> t \<in> fst ` set (tagIndex st now)
        \<and> keysOf (tagIndex st now) t = map JStr ks
        \<and> toStorageKey tagsStorageKey \<notin> set ks \<and> now' < Number_MAX_VALUE
      \<longrightarrow> (\<exists>st'. removeTag st now t = Inr st'
             \<and> (\<forall>sk\<in>set ks. getItem st' sk = None)
             \<and> (\<forall>sk. sk \<notin> set ks \<and> sk \<noteq> toStorageKey tagsStorageKey \<longrightarrow> getItem st' sk = getItem st sk)
             \<and> tagIndex st' now' = AList.delete t (tagIndex st now)
             \<and> t \<notin> fst ` set (tagIndex st' now')
             \<and> (\<forall>t'. t' \<noteq> t \<longrightarrow> getProp (tagIndex st' now') t' = getProp (tagIndex st now) t')
             \<and> (\<forall>k. toStorageKey k \<in> set ks \<longrightarrow> cache_get st' now' k = Inr (st', JNull))
             \<and> (t \<notin> set objectPrototypeNames \<longrightarrow> getTagData st' now' t = Inr (st', []))))"
proof (intro conjI impI)
  assume a: "tagsWellFormed st \<and> t \<notin> fst ` set (tagIndex st now) \<and> t \<notin> set objectPrototypeNames"
  then show rt: "removeTag st now t = Inr (afterRead st now)" by (simp add: removeTag_absent)
  show "tagIndex (afterRead st now) now = tagIndex st now" by (rule tagIndex_afterRead)
  show "\<forall>sk. sk \<noteq> toStorageKey tagsStorageKey \<longrightarrow> getItem (afterRead st now) sk = getItem st sk"
    by (simp add: getItem_afterRead)
  assume "\<forall>sv. getItem st (toStorageKey tagsStorageKey) = Some sv \<longrightarrow> validateStorageValue now sv"
  then have "afterRead st now = st" by (rule afterRead_valid)
  with rt show "removeTag st now t = Inr st" by simp
next
  let ?tk = "toStorageKey tagsStorageKey"
  let ?tbl = "AList.delete t (tagIndex st now)"
  let ?st1 = "foldl removeItem (afterRead st now) ks"
  let ?st' = "setItem ?st1 ?tk (toStorageValue now (JObj ?tbl) defaultOptions)"
  assume a: "tagsWellFormed st \<and> t \<in> fst ` set (tagIndex st now)
        \<and> keysOf (tagIndex st now) t = map JStr ks
        \<and> toStorageKey tagsStorageKey \<notin> set ks \<and> now' < Number_MAX_VALUE"
  then have wf: "tagsWellFormed st" and t: "t \<in> fst ` set (tagIndex st now)"
    and ks: "keysOf (tagIndex st now) t = map JStr ks" and tk: "?tk \<notin> set ks"
    and now': "now' < Number_MAX_VALUE" by simp_all
  have rt: "removeTag st now t = Inr ?st'" using wf t ks by (rule removeTag_listed)
  have gone: "\<forall>sk\<in>set ks. getItem ?st' sk = None"
    using tk by (auto simp: getItem_setItem getItem_foldl_removeItem)
  have kept: "\<forall>sk. sk \<notin> set ks \<and> sk \<noteq> ?tk \<longrightarrow> getItem ?st' sk = getItem st sk"
    by (simp add: getItem_setItem getItem_foldl_removeItem getItem_afterRead)
  have idx: "tagIndex ?st' now' = ?tbl" using now' by (rule tagIndex_written)
  have notin: "t \<notin> fst ` set (tagIndex ?st' now')" unfolding idx by (rule names_delete)
  have others: "\<forall>t'. t' \<noteq> t \<longrightarrow> getProp (tagIndex ?st' now') t' = getProp (tagIndex st now) t'"
    unfolding idx by (simp add: getProp_delete)
  have gets: "\<forall>k. toStorageKey k \<in> set ks \<longrightarrow> cache_get ?st' now' k = Inr (?st', JNull)"
  proof (intro allI impI)
    fix k assume "toStorageKey k \<in> set ks"
    with gone have "getItem ?st' (toStorageKey k) = None" by blast
    then show "cache_get ?st' now' k = Inr (?st', JNull)" by (simp add: cache_get_eq)
  qed
  have wf': "tagsWellFormed ?st'"
    by (intro wf_written isTagTable_delete tagIndex_wf wf)
  have data: "t \<notin> set objectPrototypeNames \<longrightarrow> getTagData ?st' now' t = Inr (?st', [])"
  proof
    assume "t \<notin> set objectPrototypeNames"
    with wf' notin have "getTagData ?st' now' t = Inr (afterRead ?st' now', [])"
      by (rule getTagData_absent)
    then show "getTagData ?st' now' t = Inr (?st', [])"
      using now' by (simp add: afterRead_written)
  qed
  from rt gone kept idx notin others gets data
  show "\<exists>st'. removeTag st now t = Inr st'
             \<and> (\<forall>sk\<in>set ks. getItem st' sk = None)
             \<and> (\<forall>sk. sk \<notin> set ks \<and> sk \<noteq> ?tk \<longrightarrow> getItem st' sk = getItem st sk)
             \<and> tagIndex st' now' = ?tbl
             \<and> t \<notin> fst ` set (tagIndex st' now')
             \<and> (\<forall>t'. t' \<noteq> t \<longrightarrow> getProp (tagIndex st' now') t' = getProp (tagIndex st now) t')
             \<and> (\<forall>k. toStorageKey k \<in> set ks \<longrightarrow> cache_get st' now' k = Inr (st', JNull))
             \<and> (t \<notin> set objectPrototypeNames \<longrightarrow> getTagData st' now' t = Inr (st', []))"
    by (intro exI [of _ ?st'] conjI)
qed

theorem removeTag_drops_tag_witness:
  "tagsWellFormed
     (setItem (setItem (setItem CacheMemoryStorage
          (toStorageKey ''a'') (toStorageValue 1000 (JNum (Finite 1)) defaultOptions))
          (toStorageKey ''b'') (toStorageValue 1000 (JNum (Finite 2)) defaultOptions))
          (toStorageKey tagsStorageKey)
          (toStorageValue 1000
             (JObj [(''g'', JArr [JStr ''CacheServicea'', JStr ''CacheServiceb'']),
                    (''h'', JArr [JStr ''CacheServicea''])])
             defaultOptions))
   \<and> (2000 :: int) < Number_MAX_VALUE
   \<and> (\<exists>st'. removeTag
          (setItem (setItem (setItem CacheMemoryStorage
             (toStorageKey ''a'') (toStorageValue 1000 (JNum (Finite 1)) defaultOptions))
             (toStorageKey ''b'') (toStorageValue 1000 (JNum (Finite 2)) defaultOptions))
             (toStorageKey tagsStorageKey)
             (toStorageValue 1000
                (JObj [(''g'', JArr [JStr ''CacheServicea'', JStr ''CacheServiceb'']),
                       (''h'', JArr [JStr ''CacheServicea''])])
                defaultOptions))
          2000 ''g'' = Inr st'
        \<and> tagIndex st' 2000 = [(''h'', JArr [JStr ''CacheServicea''])]
        \<and> cache_get st' 2000 ''a'' = Inr (st', JNull)
        \<and> cache_get st' 2000 ''b'' = Inr (st', JNull)
        \<and> getTagData st' 2000 ''g'' = Inr (st', []))
   \<and> removeTag
          (setItem (setItem (setItem CacheMemoryStorage
             (toStorageKey ''a'') (toStorageValue 1000 (JNum (Finite 1)) defaultOptions))
             (toStorageKey ''b'') (toStorageValue 1000 (JNum (Finite 2)) defaultOptions))
             (toStorageKey tagsStorageKey)
             (toStorageValue 1000
                (JObj [(''g'', JArr [JStr ''CacheServicea'', JStr ''CacheServiceb'']),
                       (''h'', JArr [JStr ''CacheServicea''])])
                defaultOptions))
          2000 ''none''
      = Inr (setItem (setItem (setItem CacheMemoryStorage
             (toStorageKey ''a'') (toStorageValue 1000 (JNum (Finite 1)) defaultOptions))
             (toStorageKey ''b'') (toStorageValue 1000 (JNum (Finite 2)) defaultOptions))
             (toStorageKey tagsStorageKey)
             (toStorageValue 1000
                (JObj [(''g'', JArr [JStr ''CacheServicea'', JStr ''CacheServiceb'']),
                       (''h'', JArr [JStr ''CacheServicea''])])
                defaultOptions))"
proof -
  let ?tbl = "[(''g'', JArr [JStr ''CacheServicea'', JStr ''CacheServiceb'']),
              (''h'', JArr [JStr ''CacheServicea''])]"
  let ?st0 = "setItem (setItem CacheMemoryStorage
          (toStorageKey ''a'') (toStorageValue 1000 (JNum (Finite 1)) defaultOptions))
          (toStorageKey ''b'') (toStorageValue 1000 (JNum (Finite 2)) defaultOptions)"
  let ?st = "setItem ?st0 (toStorageKey tagsStorageKey) (toStorageValue 1000 (JObj ?tbl) defaultOptions)"
  have h: "(2000 :: int) < Number_MAX_VALUE" by (simp add: Number_MAX_VALUE_def)
  have wf: "tagsWellFormed ?st" by (rule wf_written) simp
  have idx: "tagIndex ?st 2000 = ?tbl" using h by (rule tagIndex_written)
  have ka: "toStorageKey ''a'' = ''CacheServicea''" and kb: "toStorageKey ''b'' = ''CacheServiceb''"
    by (simp_all add: toStorageKey_def CACHE_PREFIX_def)
  have mem: "''g'' \<in> fst ` set (tagIndex ?st 2000)" unfolding idx by simp
  have ks: "keysOf (tagIndex ?st 2000) ''g'' = map JStr [''CacheServicea'', ''CacheServiceb'']"
    unfolding idx by (simp add: keysOf_def getProp_def)
  have tk: "toStorageKey tagsStorageKey \<notin> set [''CacheServicea'', ''CacheServiceb'']"
    by (simp add: toStorageKey_def CACHE_PREFIX_def tagsStorageKey_def)
  note inst = removeTag_drops_tag [where st = ?st and now = 2000 and now' = 2000]
  have pre: "tagsWellFormed ?st \<and> ''g'' \<in> fst ` set (tagIndex ?st 2000)
        \<and> keysOf (tagIndex ?st 2000) ''g'' = map JStr [''CacheServicea'', ''CacheServiceb'']
        \<and> toStorageKey tagsStorageKey \<notin> set [''CacheServicea'', ''CacheServiceb''] \<and> (2000 :: int) < Number_MAX_VALUE"
    using wf mem ks tk h by (intro conjI)
  from inst [where t = "''g''" and ks = "[''CacheServicea'', ''CacheServiceb'']", THEN conjunct2, THEN mp, OF pre]
  obtain st' where
    r: "removeTag ?st 2000 ''g'' = Inr st'"
    and i: "tagIndex st' 2000 = AList.delete ''g'' (tagIndex ?st 2000)"
    and g: "\<forall>k. toStorageKey k \<in> set [''CacheServicea'', ''CacheServiceb''] \<longrightarrow> cache_get st' 2000 k = Inr (st', JNull)"
    and d0: "''g'' \<notin> set objectPrototypeNames \<longrightarrow> getTagData st' 2000 ''g'' = Inr (st', [])"
    by (elim exE conjE)
  from d0 scenario_tag(1) have d: "getTagData st' 2000 ''g'' = Inr (st', [])" by (rule mp)
  from i have i': "tagIndex st' 2000 = [(''h'', JArr [JStr ''CacheServicea''])]"
    unfolding idx by simp
  from g have ga: "cache_get st' 2000 ''a'' = Inr (st', JNull)" by (simp add: ka)
  from g have gb: "cache_get st' 2000 ''b'' = Inr (st', JNull)" by (simp add: kb)
  from r i' ga gb d have first: "\<exists>st'. removeTag ?st 2000 ''g'' = Inr st'
        \<and> tagIndex st' 2000 = [(''h'', JArr [JStr ''CacheServicea''])]
        \<and> cache_get st' 2000 ''a'' = Inr (st', JNull)
        \<and> cache_get st' 2000 ''b'' = Inr (st', JNull)
        \<and> getTagData st' 2000 ''g'' = Inr (st', [])"
    by (intro exI [of _ st'] conjI)
  have absent: "''none'' \<notin> fst ` set (tagIndex ?st 2000)" unfolding idx by simp
  have own: "''none'' \<notin> set objectPrototypeNames" by (simp add: objectPrototypeNames_def)
  have valid: "\<forall>sv. getItem ?st (toStorageKey tagsStorageKey) = Some sv \<longrightarrow> validateStorageValue 2000 sv"
    using h by (simp add: getItem_setItem validate_default)
  have pre2: "tagsWellFormed ?st \<and> ''none'' \<notin> fst ` set (tagIndex ?st 2000)
      \<and> ''none'' \<notin> set objectPrototypeNames"
    using wf absent own by (intro conjI)
  from inst [where t = "''none''", THEN conjunct1, THEN mp, OF pre2]
  have "(\<forall>sv. getItem ?st (toStorageKey tagsStorageKey) = Some sv \<longrightarrow> validateStorageValue 2000 sv)
      \<longrightarrow> removeTag ?st 2000 ''none'' = Inr ?st"
    by (elim conjE)
  from this [THEN mp, OF valid]
  have second: "removeTag ?st 2000 ''none'' = Inr ?st" .
  from wf h first second show ?thesis by (intro conjI)
qed

text \<open>The claim as it was stated fails for a tag the table does not have. When the
  entry of the table has expired, \<open>removeTag\<close> is not a no-op: the reading of the
  table removes that entry from the backend. And when the tag is a name every object
  inherits, such as \<open>toString\<close>, \<open>forEach\<close> is called on the inherited function
  and \<open>removeTag\<close> throws.\<close>

theorem removeTag_absent_counterexample:
  "tagIndex (setItem CacheMemoryStorage (toStorageKey tagsStorageKey)
       \<lparr>val = JObj [], options = \<lparr>expires = Some (Finite 500), maxAge = Some (Finite 1), tag = None\<rparr>\<rparr>) 1000 = []
   \<and> removeTag (setItem CacheMemoryStorage (toStorageKey tagsStorageKey)
       \<lparr>val = JObj [], options = \<lparr>expires = Some (Finite 500), maxAge = Some (Finite 1), tag = None\<rparr>\<rparr>) 1000 ''g''
     = Inr (removeItem (setItem CacheMemoryStorage (toStorageKey tagsStorageKey)
       \<lparr>val = JObj [], options = \<lparr>expires = Some (Finite 500), maxAge = Some (Finite 1), tag = None\<rparr>\<rparr>)
         (toStorageKey tagsStorageKey))
   \<and> getItem (setItem CacheMemoryStorage (toStorageKey tagsStorageKey)
       \<lparr>val = JObj [], options = \<lparr>expires = Some (Finite 500), maxAge = Some (Finite 1), tag = None\<rparr>\<rparr>)
         (toStorageKey tagsStorageKey)
     = Some \<lparr>val = JObj [], options = \<lparr>expires = Some (Finite 500), maxAge = Some (Finite 1), tag = None\<rparr>\<rparr>
   \<and> getItem (removeItem (setItem CacheMemoryStorage (toStorageKey tagsStorageKey)
       \<lparr>val = JObj [], options = \<lparr>expires = Some (Finite 500), maxAge = Some (Finite 1), tag = None\<rparr>\<rparr>)
         (toStorageKey tagsStorageKey)) (toStorageKey tagsStorageKey) = None
   \<and> tagIndex CacheMemoryStorage 1000 = []
   \<and> removeTag CacheMemoryStorage 1000 ''toString'' = Inl TypeError"
proof -
  let ?sv = "\<lparr>val = JObj [], options = \<lparr>expires = Some (Finite 500), maxAge = Some (Finite 1), tag = None\<rparr>\<rparr>"
  let ?st = "setItem CacheMemoryStorage (toStorageKey tagsStorageKey) ?sv"
  have entry: "getItem ?st (toStorageKey tagsStorageKey) = Some ?sv" by (simp add: getItem_setItem)
  have expired: "\<not> validateStorageValue 1000 ?sv" by (simp add: validateStorageValue_def)
  have idx: "tagIndex ?st 1000 = []" by (simp add: tagIndex_def entry expired)
  have wf: "tagsWellFormed ?st" by (simp add: tagsWellFormed_def entry orEmpty_def)
  have read: "afterRead ?st 1000 = removeItem ?st (toStorageKey tagsStorageKey)"
    by (simp add: afterRead_def entry expired)
  have "removeTag ?st 1000 ''g'' = Inr (afterRead ?st 1000)"
    by (rule removeTag_absent [OF wf]) (simp_all add: idx scenario_tag)
  then have noop: "removeTag ?st 1000 ''g'' = Inr (removeItem ?st (toStorageKey tagsStorageKey))"
    by (simp only: read)
  have gone: "getItem (removeItem ?st (toStorageKey tagsStorageKey)) (toStorageKey tagsStorageKey) = None"
    by (simp add: getItem_removeItem)
  have thrown: "removeTag CacheMemoryStorage 1000 ''toString'' = Inl TypeError"
    by (rule removeTag_inherited [OF wf_memory]) (simp_all add: tagIndex_memory objectPrototypeNames_def)
  from idx noop entry gone tagIndex_memory [of 1000] thrown show ?thesis by (intro conjI)
qed

text \<open>
  C8. \<open>remove(k)\<close> deletes the namespaced entry and then scans the tags of the table
  in the order of the table. At the first tag whose list holds the namespaced key it
  takes the first occurrence of the key out of that list, stores the table and stops:
  the tags after it keep their lists, also one that holds the key. When no list holds
  the key the table is left as it is. In both cases the entry is gone.
\<close>

theorem remove_scavenges_first_tag:
  "cache_remove st now k = removeFromTag (removeItem st (toStorageKey k)) now (toStorageKey k)
   \<and> (cache_remove st now k = Inr st' \<longrightarrow> getItem st' (toStorageKey k) = None)
   \<and> (tagsWellFormed st \<and> now' < Number_MAX_VALUE
        \<and> tagIndex (removeItem st (toStorageKey k)) now = pre @ (t, JArr xs) # post
        \<and> (\<forall>t'\<in>fst ` set pre. JStr (toStorageKey k) \<notin> set (keysOf (pre @ (t, JArr xs) # post) t'))
        \<and> JStr (toStorageKey k) \<in> set xs
      \<longrightarrow> (\<exists>st1. cache_remove st now k = Inr st1 \<and> getItem st1 (toStorageKey k) = None
             \<and> tagIndex st1 now' = pre @ (t, JArr (remove1 (JStr (toStorageKey k)) xs)) # post))
   \<and> (tagsWellFormed st
        \<and> (\<forall>t'\<in>fst ` set (tagIndex (removeItem st (toStorageKey k)) now).
              JStr (toStorageKey k) \<notin> set (keysOf (tagIndex (removeItem st (toStorageKey k)) now) t'))
      \<longrightarrow> (\<exists>st1. cache_remove st now k = Inr st1 \<and> getItem st1 (toStorageKey k) = None
             \<and> tagIndex st1 now = tagIndex (removeItem st (toStorageKey k)) now))"
proof (intro conjI impI)
  show "cache_remove st now k = removeFromTag (removeItem st (toStorageKey k)) now (toStorageKey k)"
    by (rule cache_remove_eq)
next
  assume "cache_remove st now k = Inr st'"
  then show "getItem st' (toStorageKey k) = None" by (rule cache_remove_absent)
next
  let ?st0 = "removeItem st (toStorageKey k)"
  let ?key = "toStorageKey k"
  assume a: "tagsWellFormed st \<and> now' < Number_MAX_VALUE
        \<and> tagIndex ?st0 now = pre @ (t, JArr xs) # post
        \<and> (\<forall>t'\<in>fst ` set pre. JStr ?key \<notin> set (keysOf (pre @ (t, JArr xs) # post) t'))
        \<and> JStr ?key \<in> set xs"
  then have wf0: "tagsWellFormed ?st0" by (simp add: wf_removeItem)
  have tblwf: "isTagTable (JObj (tagIndex ?st0 now))" using wf0 by (rule tagIndex_wf)
  from a have tbl: "tagIndex ?st0 now = pre @ (t, JArr xs) # post" by simp
  from a have pre: "\<forall>t'\<in>fst ` set pre. JStr ?key \<notin> set (keysOf (tagIndex ?st0 now) t')"
    by (simp add: tbl)
  from a have hit: "JStr ?key \<in> set xs" by simp
  let ?tbl' = "pre @ (t, JArr (remove1 (JStr ?key) xs)) # post"
  let ?st1 = "setItem (afterRead ?st0 now) (toStorageKey tagsStorageKey) (toStorageValue now (JObj ?tbl') defaultOptions)"
  have "removeFromTag_scan ?key (tagIndex ?st0 now) (map fst (tagIndex ?st0 now)) = Inr (Some ?tbl')"
    using tblwf tbl pre hit by (rule scan_first_match)
  then have rm: "cache_remove st now k = Inr ?st1"
    by (simp add: cache_remove_eq removeFromTag_wf [OF wf0])
  have gone: "getItem ?st1 ?key = None" using rm by (rule cache_remove_absent)
  from a have "tagIndex ?st1 now' = ?tbl'" by (simp add: tagIndex_written)
  with rm gone show "\<exists>st1. cache_remove st now k = Inr st1 \<and> getItem st1 ?key = None
             \<and> tagIndex st1 now' = ?tbl'"
    by blast
next
  let ?st0 = "removeItem st (toStorageKey k)"
  let ?key = "toStorageKey k"
  assume a: "tagsWellFormed st
        \<and> (\<forall>t'\<in>fst ` set (tagIndex ?st0 now). JStr ?key \<notin> set (keysOf (tagIndex ?st0 now) t'))"
  then have wf0: "tagsWellFormed ?st0" by (simp add: wf_removeItem)
  have tblwf: "isTagTable (JObj (tagIndex ?st0 now))" using wf0 by (rule tagIndex_wf)
  from a have none: "\<forall>t'\<in>fst ` set (tagIndex ?st0 now). JStr ?key \<notin> set (keysOf (tagIndex ?st0 now) t')"
    by simp
  have "removeFromTag_scan ?key (tagIndex ?st0 now) (map fst (tagIndex ?st0 now)) = Inr None"
    using tblwf none by (rule scan_no_match)
  then have rm: "cache_remove st now k = Inr (afterRead ?st0 now)"
    by (simp add: cache_remove_eq removeFromTag_wf [OF wf0])
  have gone: "getItem (afterRead ?st0 now) ?key = None" using rm by (rule cache_remove_absent)
  from rm gone show "\<exists>st1. cache_remove st now k = Inr st1 \<and> getItem st1 ?key = None
             \<and> tagIndex st1 now = tagIndex ?st0 now"
    by (simp add: tagIndex_afterRead)
qed

theorem remove_scavenges_first_tag_witness:
  "tagsWellFormed
     (setItem (setItem CacheMemoryStorage (toStorageKey ''a'') (toStorageValue 1000 (JNum (Finite 1)) defaultOptions))
        (toStorageKey tagsStorageKey)
        (toStorageValue 1000
           (JObj [(''g0'', JArr [JStr ''CacheServiceb'']),
                  (''g1'', JArr [JStr ''CacheServicea'', JStr ''CacheServiceb'', JStr ''CacheServicea'']),
                  (''g2'', JArr [JStr ''CacheServicea''])])
           defaultOptions))
   \<and> (2000 :: int) < Number_MAX_VALUE
   \<and> (\<exists>st1. cache_remove
          (setItem (setItem CacheMemoryStorage (toStorageKey ''a'') (toStorageValue 1000 (JNum (Finite 1)) defaultOptions))
             (toStorageKey tagsStorageKey)
             (toStorageValue 1000
                (JObj [(''g0'', JArr [JStr ''CacheServiceb'']),
                       (''g1'', JArr [JStr ''CacheServicea'', JStr ''CacheServiceb'', JStr ''CacheServicea'']),
                       (''g2'', JArr [JStr ''CacheServicea''])])
                defaultOptions))
          2000 ''a'' = Inr st1
        \<and> getItem st1 (toStorageKey ''a'') = None
        \<and> tagIndex st1 2000 =
            [(''g0'', JArr [JStr ''CacheServiceb'']),
             (''g1'', JArr [JStr ''CacheServiceb'', JStr ''CacheServicea'']),
             (''g2'', JArr [JStr ''CacheServicea''])])"
proof -
  let ?tbl = "[(''g0'', JArr [JStr ''CacheServiceb'']),
              (''g1'', JArr [JStr ''CacheServicea'', JStr ''CacheServiceb'', JStr ''CacheServicea'']),
              (''g2'', JArr [JStr ''CacheServicea''])]"
  let ?st = "setItem (setItem CacheMemoryStorage (toStorageKey ''a'') (toStorageValue 1000 (JNum (Finite 1)) defaultOptions))
               (toStorageKey tagsStorageKey) (toStorageValue 1000 (JObj ?tbl) defaultOptions)"
  have h: "(2000 :: int) < Number_MAX_VALUE" by (simp add: Number_MAX_VALUE_def)
  have ne: "toStorageKey ''a'' \<noteq> toStorageKey tagsStorageKey"
    by (simp add: toStorageKey_inj tagsStorageKey_def)
  have wf: "tagsWellFormed ?st" by (rule wf_written) simp
  have key: "toStorageKey ''a'' = ''CacheServicea''" by (simp add: toStorageKey_def CACHE_PREFIX_def)
  have idx: "tagIndex (removeItem ?st (toStorageKey ''a'')) 2000
      = [(''g0'', JArr [JStr ''CacheServiceb''])]
        @ (''g1'', JArr [JStr ''CacheServicea'', JStr ''CacheServiceb'', JStr ''CacheServicea''])
        # [(''g2'', JArr [JStr ''CacheServicea''])]"
    using ne h by (simp add: tagIndex_removeItem_other tagIndex_written)
  have pre: "\<forall>t'\<in>fst ` set [(''g0'', JArr [JStr ''CacheServiceb''])].
      JStr (toStorageKey ''a'') \<notin> set (keysOf ([(''g0'', JArr [JStr ''CacheServiceb''])]
        @ (''g1'', JArr [JStr ''CacheServicea'', JStr ''CacheServiceb'', JStr ''CacheServicea''])
        # [(''g2'', JArr [JStr ''CacheServicea''])]) t')"
    by (simp add: keysOf_def getProp_def key)
  have hit: "JStr (toStorageKey ''a'') \<in> set [JStr ''CacheServicea'', JStr ''CacheServiceb'', JStr ''CacheServicea'']"
    by (simp add: key)
  from remove_scavenges_first_tag [where st = ?st and now = 2000 and now' = 2000 and k = "''a''"
      and pre = "[(''g0'', JArr [JStr ''CacheServiceb''])]" and t = "''g1''"
      and xs = "[JStr ''CacheServicea'', JStr ''CacheServiceb'', JStr ''CacheServicea'']"
      and post = "[(''g2'', JArr [JStr ''CacheServicea''])]"]
    wf h idx pre hit
  obtain st1 where
    "cache_remove ?st 2000 ''a'' = Inr st1" "getItem st1 (toStorageKey ''a'') = None"
    "tagIndex st1 2000 = [(''g0'', JArr [JStr ''CacheServiceb''])]
        @ (''g1'', JArr (remove1 (JStr (toStorageKey ''a''))
              [JStr ''CacheServicea'', JStr ''CacheServiceb'', JStr ''CacheServicea'']))
        # [(''g2'', JArr [JStr ''CacheServicea''])]"
    by blast
  then have "cache_remove ?st 2000 ''a'' = Inr st1 \<and> getItem st1 (toStorageKey ''a'') = None
      \<and> tagIndex st1 2000 =
            [(''g0'', JArr [JStr ''CacheServiceb'']),
             (''g1'', JArr [JStr ''CacheServiceb'', JStr ''CacheServicea'']),
             (''g2'', JArr [JStr ''CacheServicea''])]"
    by (simp add: key)
  with wf h show ?thesis by blast
qed

text \<open>
  C9. \<open>exists(k)\<close> is true exactly when \<open>get(k)\<close> returns a truthy value, and
  leaves the backend \<open>get\<close> leaves. So a stored \<open>false\<close>, empty string or zero
  makes \<open>exists\<close> false, as a key with no entry does.
\<close>

theorem exists_is_truthy_get:
  "((cache_exists st now k = Inr (st', b)) = (\<exists>r. cache_get st now k = Inr (st', r) \<and> b = truthy r))
   \<and> ((cache_exists st now k = Inl err) = (cache_get st now k = Inl err))
   \<and> (now' < Number_MAX_VALUE \<and> v \<in> {JBool False, JStr [], JNum (Finite 0)}
      \<longrightarrow> (\<exists>st1. cache_set st now k v None = Inr st1
             \<and> cache_get st1 now' k = Inr (st1, v)
             \<and> cache_exists st1 now' k = Inr (st1, False)))
   \<and> (getItem st (toStorageKey k) = None \<longrightarrow> cache_exists st now k = Inr (st, False))"
proof (intro conjI impI)
  show "(cache_exists st now k = Inr (st', b)) = (\<exists>r. cache_get st now k = Inr (st', r) \<and> b = truthy r)"
    by (auto simp: cache_exists_def split: sum.splits)
  show "(cache_exists st now k = Inl err) = (cache_get st now k = Inl err)"
    by (auto simp: cache_exists_def split: sum.splits)
next
  assume a: "now' < Number_MAX_VALUE \<and> v \<in> {JBool False, JStr [], JNum (Finite 0)}"
  let ?st1 = "setItem st (toStorageKey k) (toStorageValue now v defaultOptions)"
  from a have g: "cache_get ?st1 now' k = Inr (?st1, v)" by (simp add: cache_set_get_default)
  from a have "\<not> truthy v" by auto
  with g have "cache_exists ?st1 now' k = Inr (?st1, False)" by (simp add: cache_exists_def)
  with g show "\<exists>st1. cache_set st now k v None = Inr st1
             \<and> cache_get st1 now' k = Inr (st1, v)
             \<and> cache_exists st1 now' k = Inr (st1, False)"
    by (simp add: cache_set_None)
next
  assume "getItem st (toStorageKey k) = None"
  then show "cache_exists st now k = Inr (st, False)" by (rule cache_exists_absent)
qed

theorem exists_is_truthy_get_witness:
  "(1000 :: int) < Number_MAX_VALUE
   \<and> (\<exists>st1. cache_set CacheMemoryStorage 1000 ''flag'' (JBool False) None = Inr st1
         \<and> cache_get st1 1000 ''flag'' = Inr (st1, JBool False)
         \<and> cache_exists st1 1000 ''flag'' = Inr (st1, False))
   \<and> (\<exists>st1. cache_set CacheMemoryStorage 1000 ''count'' (JNum (Finite 0)) None = Inr st1
         \<and> cache_get st1 1000 ''count'' = Inr (st1, JNum (Finite 0))
         \<and> cache_exists st1 1000 ''count'' = Inr (st1, False))
   \<and> getItem CacheMemoryStorage (toStorageKey ''flag'') = None
   \<and> cache_exists CacheMemoryStorage 1000 ''flag'' = Inr (CacheMemoryStorage, False)"
proof -
  have h: "(1000 :: int) < Number_MAX_VALUE" by (simp add: Number_MAX_VALUE_def)
  have absent: "getItem CacheMemoryStorage (toStorageKey ''flag'') = None" by (rule memory_items)
  from exists_is_truthy_get [of CacheMemoryStorage 1000 "''flag''" _ _ _ 1000 "JBool False"] h
  have a: "\<exists>st1. cache_set CacheMemoryStorage 1000 ''flag'' (JBool False) None = Inr st1
         \<and> cache_get st1 1000 ''flag'' = Inr (st1, JBool False)
         \<and> cache_exists st1 1000 ''flag'' = Inr (st1, False)"
    by simp
  from exists_is_truthy_get [of CacheMemoryStorage 1000 "''count''" _ _ _ 1000 "JNum (Finite 0)"] h
  have b: "\<exists>st1. cache_set CacheMemoryStorage 1000 ''count'' (JNum (Finite 0)) None = Inr st1
         \<and> cache_get st1 1000 ''count'' = Inr (st1, JNum (Finite 0))
         \<and> cache_exists st1 1000 ''count'' = Inr (st1, False)"
    by simp
  from exists_is_truthy_get [of CacheMemoryStorage 1000 "''flag''"] absent
  have c: "cache_exists CacheMemoryStorage 1000 ''flag'' = Inr (CacheMemoryStorage, False)"
    by blast
  from h a b absent c show ?thesis by blast
qed

text \<open>
  C10. For a key whose namespaced entry is stored and has not expired (its expiry is
  strictly greater than the clock), \<open>get\<close> writes nothing: the backend it leaves is
  the backend it was given, the entry of the tag table included. \<open>get\<close> changes the
  backend only when the entry it looks up is stored and has expired.
\<close>

theorem get_valid_leaves_backend:
  "(getItem st (toStorageKey k) = Some sv \<and> expires (options sv) = Some e \<and> greaterThan e now
      \<longrightarrow> cache_get st now k = Inr (st, val sv))
   \<and> (cache_get st now k = Inr (st', r) \<and> st' \<noteq> st
      \<longrightarrow> (\<exists>sv'. getItem st (toStorageKey k) = Some sv' \<and> \<not> validateStorageValue now sv'))"
  by (auto simp: cache_get_eq validateStorageValue_def split: option.splits if_splits sum.splits)

theorem get_valid_leaves_backend_witness:
  "cache_get (setItem CacheMemoryStorage (toStorageKey ''k'')
             \<lparr>val = JNum (Finite 7), options = \<lparr>expires = Some (Finite 5000), maxAge = Some (Finite 1), tag = None\<rparr>\<rparr>) 1000 ''k''
     = Inr (setItem CacheMemoryStorage (toStorageKey ''k'')
             \<lparr>val = JNum (Finite 7), options = \<lparr>expires = Some (Finite 5000), maxAge = Some (Finite 1), tag = None\<rparr>\<rparr>, JNum (Finite 7))
   \<and> cache_get (setItem CacheMemoryStorage (toStorageKey ''k'')
             \<lparr>val = JNum (Finite 7), options = \<lparr>expires = Some (Finite 5000), maxAge = Some (Finite 1), tag = None\<rparr>\<rparr>) 6000 ''k''
     = Inr (removeItem (setItem CacheMemoryStorage (toStorageKey ''k'')
             \<lparr>val = JNum (Finite 7), options = \<lparr>expires = Some (Finite 5000), maxAge = Some (Finite 1), tag = None\<rparr>\<rparr>)
             (toStorageKey ''k''), JNull)
   \<and> (\<exists>sv'. getItem (setItem CacheMemoryStorage (toStorageKey ''k'')
             \<lparr>val = JNum (Finite 7), options = \<lparr>expires = Some (Finite 5000), maxAge = Some (Finite 1), tag = None\<rparr>\<rparr>)
             (toStorageKey ''k'') = Some sv' \<and> \<not> validateStorageValue 6000 sv')"
proof -
  let ?sv = "\<lparr>val = JNum (Finite 7), options = \<lparr>expires = Some (Finite 5000), maxAge = Some (Finite 1), tag = None\<rparr>\<rparr>"
  let ?st = "setItem CacheMemoryStorage (toStorageKey ''k'') ?sv"
  have entry: "getItem ?st (toStorageKey ''k'') = Some ?sv"
    by (simp add: getItem_setItem)
  have fresh: "cache_get ?st 1000 ''k'' = Inr (?st, JNum (Finite 7))"
    using get_valid_leaves_backend [of ?st "''k''" ?sv "Finite 5000" 1000] entry by simp
  have notags: "getItem (removeItem ?st (toStorageKey ''k'')) (toStorageKey tagsStorageKey) = None"
    by (simp add: getItem_removeItem getItem_setItem memory_items)
  have expired: "cache_get ?st 6000 ''k'' = Inr (removeItem ?st (toStorageKey ''k''), JNull)"
    by (simp add: cache_get_eq entry validateStorageValue_def cache_remove_eq removeFromTag_closed
        lookup_def notags orEmpty_def asObject_def afterRead_def)
  have changed: "removeItem ?st (toStorageKey ''k'') \<noteq> ?st"
    by (rule removeItem_changes) (simp add: entry)
  from get_valid_leaves_backend [of ?st "''k''" _ _ 6000 "removeItem ?st (toStorageKey ''k'')" JNull]
    expired changed
  have "\<exists>sv'. getItem ?st (toStorageKey ''k'') = Some sv' \<and> \<not> validateStorageValue 6000 sv'"
    by blast
  with fresh expired show ?thesis by blast
qed

end
